theory Spec2Isabelle
  imports Complex_Main "HOL-Library.Word" "HOL-Library.Signed_Division"
    "HOL-Library.Monad_Syntax" "HOL-Library.Log_Nat"
begin

unbundle bit_operations_syntax

chapter \<open>The driver\<close>

section \<open>Data model\<close>

text \<open>
  The driver is embedded for a target whose \<open>int\<close>, \<open>unsigned int\<close>, \<open>long\<close> and
  \<open>unsigned long\<close> are 32 bits wide (the header initialises \<open>int minX = (int)65000\<close>,
  which needs more than 16 bits). Unsigned values are words, so they wrap as in C++.
  Signed values are mathematical integers: signed overflow, and the cast of a floating
  value beyond the range of \<open>int\<close>, are undefined in C++, and no statement below
  relies on them. Private members are written without the leading underscore of
  their names.

  A \<open>float\<close> or \<open>double\<close> is either a finite value or \<open>NonFinite\<close>, standing
  for an infinity or a NaN. Converting a non-finite value to an integer has no defined
  result in C++; operations that do so return \<open>None\<close>. \<open>setCalibration\<close> stores
  what its \<open>float\<close> arithmetic yields, so there every operation is rounded to
  binary32 (section \<open>Binary32 arithmetic\<close>). The other floating expressions are
  idealised as exact reals (their rounding error is not represented).
\<close>

type_synonym byte = "8 word"
type_synonym uint = "32 word"
type_synonym ulong = "32 word"

datatype cfloat = Finite real | NonFinite

fun fsub :: "cfloat \<Rightarrow> cfloat \<Rightarrow> cfloat" where
  "fsub (Finite a) (Finite b) = Finite (a - b)"
| "fsub _ _ = NonFinite"

fun fmul :: "cfloat \<Rightarrow> cfloat \<Rightarrow> cfloat" where
  "fmul (Finite a) (Finite b) = Finite (a * b)"
| "fmul _ _ = NonFinite"

text \<open>Division of two finite values: a zero divisor gives an infinity or a NaN.\<close>

definition fdiv :: "real \<Rightarrow> real \<Rightarrow> cfloat" where
  "fdiv a b = (if b = 0 then NonFinite else Finite (a / b))"

text \<open>\<open>round\<close> of the C library: halfway cases away from zero.\<close>

definition c_round :: "real \<Rightarrow> int" where
  "c_round x = (if 0 \<le> x then \<lfloor>x + 1 / 2\<rfloor> else - \<lfloor>- x + 1 / 2\<rfloor>)"

text \<open>The cast \<open>(int)\<close> of a floating value: truncation towards zero.\<close>

definition c_trunc :: "real \<Rightarrow> int" where
  "c_trunc x = (if 0 \<le> x then \<lfloor>x\<rfloor> else - \<lfloor>- x\<rfloor>)"

text \<open>\<open>(int)round(v)\<close>.\<close>

fun int_round :: "cfloat \<Rightarrow> int option" where
  "int_round (Finite x) = Some (c_round x)"
| "int_round NonFinite = None"

section \<open>Binary32 arithmetic\<close>

text \<open>
  \<open>r32\<close> rounds a real to the nearest value with a significand of 24 bits, ties to
  the even significand, as the binary32 operations of IEEE 754 do by default.
  \<open>expo x\<close> is the exponent \<open>e\<close> with \<open>2^e \<le> |x| < 2^(e+1)\<close> and \<open>pow2 (e - 23)\<close>
  the spacing of the binary32 values around \<open>x\<close>. The exponent range of the format
  is not part of \<open>r32\<close>: on arguments of type \<open>int\<close> (\<open>int32\<close>) the exact result of
  every operation of \<open>setCalibration\<close> is 0 or lies in the range of the normal
  binary32 values (\<open>in_range32\<close>, lemma \<open>setCalibration_in_range\<close>), where
  rounding neither overflows nor underflows (lemma \<open>r32_range\<close>).
\<close>

definition pow2 :: "int \<Rightarrow> real" where
  "pow2 k = (if 0 \<le> k then 2 ^ nat k else 1 / 2 ^ nat (- k))"

definition round_even :: "real \<Rightarrow> int" where
  "round_even x =
     (let n = \<lfloor>x\<rfloor>; d = x - real_of_int n
      in if d < 1 / 2 then n else if 1 / 2 < d then n + 1 else if even n then n else n + 1)"

definition expo :: "real \<Rightarrow> int" where
  "expo x =
     (if 1 \<le> \<bar>x\<bar> then bitlen \<lfloor>\<bar>x\<bar>\<rfloor> - 1 else - bitlen (\<lceil>1 / \<bar>x\<bar>\<rceil> - 1))"

definition r32 :: "real \<Rightarrow> real" where
  "r32 x =
     (if x = 0 then 0
      else (let q = pow2 (expo x - 23) in real_of_int (round_even (x / q)) * q))"

text \<open>
  The conversion \<open>float f = i\<close> of an \<open>int\<close> and the four operations on finite
  values; \<open>f32_div\<close> is for a divisor that is not 0, \<open>fdiv32\<close> for any divisor.
\<close>

definition int32 :: "int \<Rightarrow> bool" where
  "int32 n \<longleftrightarrow> - (2 ^ 31) \<le> n \<and> n < 2 ^ 31"

text \<open>
  The range of the normal binary32 values, and two sets of values used to bound the
  operands of \<open>setCalibration\<close>: the integers and the multiples of 1/2 up to
  \<open>2^b\<close> in magnitude.
\<close>

definition in_range32 :: "real \<Rightarrow> bool" where
  "in_range32 x \<longleftrightarrow> x = 0 \<or> (pow2 (- 126) \<le> \<bar>x\<bar> \<and> \<bar>x\<bar> \<le> pow2 127)"

definition whole :: "int \<Rightarrow> real \<Rightarrow> bool" where
  "whole b x \<longleftrightarrow> x \<in> \<int> \<and> \<bar>x\<bar> \<le> pow2 b"

definition halves :: "int \<Rightarrow> real \<Rightarrow> bool" where
  "halves b x \<longleftrightarrow> 2 * x \<in> \<int> \<and> \<bar>x\<bar> \<le> pow2 b"

definition f32_of_int :: "int \<Rightarrow> real" where
  "f32_of_int n = r32 (real_of_int n)"

definition f32_add :: "real \<Rightarrow> real \<Rightarrow> real" where
  "f32_add a b = r32 (a + b)"

definition f32_sub :: "real \<Rightarrow> real \<Rightarrow> real" where
  "f32_sub a b = r32 (a - b)"

definition f32_mul :: "real \<Rightarrow> real \<Rightarrow> real" where
  "f32_mul a b = r32 (a * b)"

definition f32_div :: "real \<Rightarrow> real \<Rightarrow> real" where
  "f32_div a b = r32 (a / b)"

definition fdiv32 :: "real \<Rightarrow> real \<Rightarrow> cfloat" where
  "fdiv32 a b = (if b = 0 then NonFinite else Finite (f32_div a b))"

section \<open>The driver object\<close>

record compass =
  autoCalibrate :: bool
  magneticDeclinationDegrees :: real
  smoothUse :: bool
  smoothSteps :: byte
  smoothAdvanced :: bool
  ADDR :: byte
  vRaw :: "int list"
  vHistory :: "int list list"
  vScan :: int
  vTotals :: "int list"
  vSmooth :: "int list"
  offset :: "cfloat list"
  scale :: "cfloat list"
  vCalibrated :: "int list"
  minX :: int
  minY :: int
  minZ :: int
  maxX :: int
  maxY :: int
  maxZ :: int

text \<open>
  The constructor with the header's member initialisers. \<open>_vHistory\<close> and
  \<open>_vCalibrated\<close> have no initialiser: their first contents are the parameters
  \<open>h0\<close> (10 rows of 3) and \<open>c0\<close>. A driver object with static storage has them zero.
\<close>

definition QMC5883LCompass :: "int list list \<Rightarrow> int list \<Rightarrow> compass" where
  "QMC5883LCompass h0 c0 =
     \<lparr> autoCalibrate = False, magneticDeclinationDegrees = 0, smoothUse = False,
       smoothSteps = 5, smoothAdvanced = False, ADDR = 0x0D,
       vRaw = [0, 0, 0], vHistory = h0, vScan = 0, vTotals = [0, 0, 0],
       vSmooth = [0, 0, 0], offset = [Finite 0, Finite 0, Finite 0],
       scale = [Finite 1, Finite 1, Finite 1], vCalibrated = c0,
       minX = 65000, minY = 65000, minZ = 65000,
       maxX = - 65000, maxY = - 65000, maxZ = - 65000 \<rparr>"

definition zero_row :: "int list" where
  "zero_row = [0, 0, 0]"

definition zero_history :: "int list list" where
  "zero_history =
     [zero_row, zero_row, zero_row, zero_row, zero_row,
      zero_row, zero_row, zero_row, zero_row, zero_row]"

definition static_compass :: compass where
  "static_compass = QMC5883LCompass zero_history zero_row"

section \<open>Configuration\<close>

definition setAutocalibrate :: "bool \<Rightarrow> compass \<Rightarrow> compass" where
  "setAutocalibrate autoCalibrateEnabled s = s\<lparr>autoCalibrate := autoCalibrateEnabled\<rparr>"

definition setADDR :: "byte \<Rightarrow> compass \<Rightarrow> compass" where
  "setADDR b s = s\<lparr>ADDR := b\<rparr>"

definition setSmoothing :: "byte \<Rightarrow> bool \<Rightarrow> compass \<Rightarrow> compass" where
  "setSmoothing steps adv s =
     s\<lparr>smoothUse := True,
       smoothSteps := (if steps > 10 then 10 else steps),
       smoothAdvanced := (if adv = True then True else False)\<rparr>"

text \<open>
  Register writes go to the chip and leave the driver object as it is; a write is
  the triple of bus address, register and value.
\<close>

type_synonym reg_write = "byte \<times> byte \<times> byte"

definition writeReg :: "byte \<Rightarrow> byte \<Rightarrow> compass \<Rightarrow> reg_write list" where
  "writeReg r v s = [(ADDR s, r, v)]"

definition setMode :: "byte \<Rightarrow> byte \<Rightarrow> byte \<Rightarrow> byte \<Rightarrow> compass \<Rightarrow> reg_write list" where
  "setMode mode odr rng osr s = writeReg 0x09 (mode OR odr OR rng OR osr) s"

definition init :: "compass \<Rightarrow> reg_write list" where
  "init s = writeReg 0x0B 0x01 s @ setMode 0x01 0x0C 0x10 0x00 s"

definition setReset :: "compass \<Rightarrow> reg_write list" where
  "setReset s = writeReg 0x0A 0x80 s"

section \<open>Axis accessors\<close>

definition get :: "nat \<Rightarrow> compass \<Rightarrow> int" where
  "get i s = (if smoothUse s then vSmooth s ! i else vCalibrated s ! i)"

definition getX :: "compass \<Rightarrow> int" where "getX s = get 0 s"
definition getY :: "compass \<Rightarrow> int" where "getY s = get 1 s"
definition getZ :: "compass \<Rightarrow> int" where "getZ s = get 2 s"

section \<open>Calibration model\<close>

definition setCalibrationOffsets :: "cfloat \<Rightarrow> cfloat \<Rightarrow> cfloat \<Rightarrow> compass \<Rightarrow> compass" where
  "setCalibrationOffsets x_offset y_offset z_offset s =
     s\<lparr>offset := [x_offset, y_offset, z_offset]\<rparr>"

definition setCalibrationScales :: "cfloat \<Rightarrow> cfloat \<Rightarrow> cfloat \<Rightarrow> compass \<Rightarrow> compass" where
  "setCalibrationScales x_scale y_scale z_scale s =
     s\<lparr>scale := [x_scale, y_scale, z_scale]\<rparr>"

definition setCalibration ::
  "int \<Rightarrow> int \<Rightarrow> int \<Rightarrow> int \<Rightarrow> int \<Rightarrow> int \<Rightarrow> compass \<Rightarrow> compass" where
  "setCalibration x_min x_max y_min y_max z_min z_max s =
     (let x_min_f = f32_of_int x_min; x_max_f = f32_of_int x_max;
          y_min_f = f32_of_int y_min; y_max_f = f32_of_int y_max;
          z_min_f = f32_of_int z_min; z_max_f = f32_of_int z_max;
          s = setCalibrationOffsets
                (Finite (f32_div (f32_add x_min_f x_max_f) 2))
                (Finite (f32_div (f32_add y_min_f y_max_f) 2))
                (Finite (f32_div (f32_mul z_min_f z_max_f) 2)) s;
          x_avg_delta = f32_div (f32_sub x_max_f x_min_f) 2;
          y_avg_delta = f32_div (f32_sub y_max_f y_min_f) 2;
          z_avg_delta = f32_div (f32_sub z_max_f z_min_f) 2;
          avg_delta = f32_div (f32_add (f32_add x_avg_delta y_avg_delta) z_avg_delta) 3
      in setCalibrationScales
           (fdiv32 avg_delta x_avg_delta)
           (fdiv32 avg_delta y_avg_delta)
           (fdiv32 avg_delta z_avg_delta) s)"

text \<open>
  The formulas of the derivation contract, each in the \<open>float\<close> arithmetic of the
  fields they fill: the midpoint \<open>(min + max) / 2\<close>, the product form
  \<open>(min * max) / 2\<close> of the z axis, \<open>delta = (max - min) / 2\<close>, and the mean of
  three deltas.
\<close>

definition midpoint :: "int \<Rightarrow> int \<Rightarrow> real" where
  "midpoint lo hi = f32_div (f32_add (f32_of_int lo) (f32_of_int hi)) 2"

definition half_product :: "int \<Rightarrow> int \<Rightarrow> real" where
  "half_product lo hi = f32_div (f32_mul (f32_of_int lo) (f32_of_int hi)) 2"

definition delta :: "int \<Rightarrow> int \<Rightarrow> real" where
  "delta lo hi = f32_div (f32_sub (f32_of_int hi) (f32_of_int lo)) 2"

definition mean3 :: "real \<Rightarrow> real \<Rightarrow> real \<Rightarrow> real" where
  "mean3 a b c = f32_div (f32_add (f32_add a b) c) 3"

text \<open>The indexed accessors read a 3-element array; other indices are outside it.\<close>

definition getCalibrationOffset :: "byte \<Rightarrow> compass \<Rightarrow> cfloat option" where
  "getCalibrationOffset index s =
     (if unat index < 3 then Some (offset s ! unat index) else None)"

definition getCalibrationScale :: "byte \<Rightarrow> compass \<Rightarrow> cfloat option" where
  "getCalibrationScale index s =
     (if unat index < 3 then Some (scale s ! unat index) else None)"

definition clearCalibration :: "compass \<Rightarrow> compass" where
  "clearCalibration s =
     setCalibrationScales (Finite 1) (Finite 1) (Finite 1)
       (setCalibrationOffsets (Finite 0) (Finite 0) (Finite 0) s)"

text \<open>
  The six comparisons against the running extrema. The source writes them out twice,
  in \<open>_applyCalibrationIfNecessary\<close> and in the loop of \<open>calibrate\<close>.
\<close>

definition track_extrema :: "int \<Rightarrow> int \<Rightarrow> int \<Rightarrow> compass \<Rightarrow> bool \<times> compass" where
  "track_extrema x y z s =
     (let foundNewValue = False;
          (foundNewValue, s) =
             (if x < minX s then (True, s\<lparr>minX := x\<rparr>) else (foundNewValue, s));
          (foundNewValue, s) =
             (if x > maxX s then (True, s\<lparr>maxX := x\<rparr>) else (foundNewValue, s));
          (foundNewValue, s) =
             (if y < minY s then (True, s\<lparr>minY := y\<rparr>) else (foundNewValue, s));
          (foundNewValue, s) =
             (if y > maxY s then (True, s\<lparr>maxY := y\<rparr>) else (foundNewValue, s));
          (foundNewValue, s) =
             (if z < minZ s then (True, s\<lparr>minZ := z\<rparr>) else (foundNewValue, s));
          (foundNewValue, s) =
             (if z > maxZ s then (True, s\<lparr>maxZ := z\<rparr>) else (foundNewValue, s))
      in (foundNewValue, s))"

definition applyCalibrationIfNecessary ::
  "int \<Rightarrow> int \<Rightarrow> int \<Rightarrow> compass \<Rightarrow> bool \<times> compass" where
  "applyCalibrationIfNecessary x y z s =
     (let (foundNewValue, s) = track_extrema x y z s
      in (foundNewValue,
          if foundNewValue
          then setCalibration (minX s) (maxX s) (minY s) (maxY s) (minZ s) (maxZ s) s
          else s))"

section \<open>Calibration applier\<close>

definition calibrated_axis :: "compass \<Rightarrow> nat \<Rightarrow> int option" where
  "calibrated_axis s i =
     int_round (fmul (fsub (Finite (real_of_int (vRaw s ! i))) (offset s ! i)) (scale s ! i))"

definition applyCalibration :: "compass \<Rightarrow> compass option" where
  "applyCalibration s =
     do {
       c0 \<leftarrow> calibrated_axis s 0;
       c1 \<leftarrow> calibrated_axis s 1;
       c2 \<leftarrow> calibrated_axis s 2;
       Some (s\<lparr>vCalibrated := [c0, c1, c2]\<rparr>)
     }"

section \<open>Smoothing engine\<close>

text \<open>The two scans of the advanced mode, over the rows \<open>0 .. n - 1\<close>.\<close>

definition scan_max :: "int list list \<Rightarrow> nat \<Rightarrow> int \<Rightarrow> nat" where
  "scan_max h i n = foldl (\<lambda>m j. if h ! j ! i > h ! m ! i then j else m) 0 [0..<nat n]"

definition scan_min :: "int list list \<Rightarrow> nat \<Rightarrow> int \<Rightarrow> nat" where
  "scan_min h i n = foldl (\<lambda>m k. if h ! k ! i < h ! m ! i then k else m) 0 [0..<nat n]"

text \<open>The body of the loop over the axes, for axis \<open>i\<close>.\<close>

definition smoothing_axis :: "nat \<Rightarrow> compass \<Rightarrow> compass option" where
  "smoothing_axis i s =
     (let scan = nat (vScan s);
          t = vTotals s ! i;
          t = (if t \<noteq> 0 then t - vHistory s ! scan ! i else t);
          h = (vHistory s)[scan := (vHistory s ! scan)[i := vCalibrated s ! i]];
          t = t + h ! scan ! i;
          s = s\<lparr>vTotals := (vTotals s)[i := t], vHistory := h\<rparr>;
          steps = uint (smoothSteps s)
      in if smoothAdvanced s then
           (let mx = scan_max h i (steps - 1);
                mn = scan_min h i (steps - 1)
            in do {
                 v \<leftarrow> int_round
                        (fdiv (real_of_int t
                                 - (real_of_int (h ! mx ! i) + real_of_int (h ! mn ! i)))
                              (real_of_int steps - 2));
                 Some (s\<lparr>vSmooth := (vSmooth s)[i := v]\<rparr>)
               })
         else
           do {
             v \<leftarrow> int_round (fdiv (real_of_int t) (real_of_int steps));
             Some (s\<lparr>vSmooth := (vSmooth s)[i := v]\<rparr>)
           })"

definition smoothing :: "compass \<Rightarrow> compass option" where
  "smoothing s =
     (let s = (if vScan s > uint (smoothSteps s) - 1 then s\<lparr>vScan := 0\<rparr> else s)
      in do {
           s \<leftarrow> smoothing_axis 0 s;
           s \<leftarrow> smoothing_axis 1 s;
           s \<leftarrow> smoothing_axis 2 s;
           Some (s\<lparr>vScan := vScan s + 1\<rparr>)
         })"

text \<open>
  Feeding calibrated samples to the engine, one smoothing step per sample, and the
  sum of the ring-buffer entries held for an axis (rows \<open>0 .. _smoothSteps - 1\<close>).
\<close>

fun feed :: "int list list \<Rightarrow> compass \<Rightarrow> compass option" where
  "feed [] s = Some s"
| "feed (v # vs) s =
     (case smoothing (s\<lparr>vCalibrated := v\<rparr>) of None \<Rightarrow> None | Some s' \<Rightarrow> feed vs s')"

definition buffer_sum :: "compass \<Rightarrow> nat \<Rightarrow> int" where
  "buffer_sum s i = sum_list (map (\<lambda>row. row ! i) (take (unat (smoothSteps s)) (vHistory s)))"

section \<open>Reading a sample\<close>

text \<open>
  The bus: \<open>endTransmission\<close> yields an error code, \<open>requestFrom\<close> delivers the bytes
  \<open>rx\<close> (at most 6), and \<open>wire->read()\<close> takes the next one, or yields \<open>-1\<close> when
  none is left. Each axis is \<open>(int)(int16_t)(lo | hi << 8)\<close>, low byte first.
\<close>

fun wire_read :: "byte list \<Rightarrow> int \<times> byte list" where
  "wire_read [] = (- 1, [])"
| "wire_read (b # rx) = (uint b, rx)"

definition read_axis :: "byte list \<Rightarrow> int \<times> byte list" where
  "read_axis rx =
     (let (lo, rx) = wire_read rx;
          (hi, rx) = wire_read rx
      in (sint (word_of_int (lo OR push_bit 8 hi) :: 16 word), rx))"

definition read :: "int \<Rightarrow> byte list \<Rightarrow> compass \<Rightarrow> (bool \<times> compass) option" where
  "read err rx s =
     (let foundNewValue = False in
      if err = 0 then
        (let (x, rx) = read_axis rx;
             (y, rx) = read_axis rx;
             (z, rx) = read_axis rx;
             (foundNewValue, s) =
                (if autoCalibrate s then applyCalibrationIfNecessary x y z s
                 else (foundNewValue, s));
             s = s\<lparr>vRaw := [x, y, z]\<rparr>
         in do {
              s \<leftarrow> applyCalibration s;
              s \<leftarrow> (if smoothUse s then smoothing s else Some s);
              Some (foundNewValue, s)
            })
      else Some (foundNewValue, s))"

section \<open>Auto-calibration session\<close>

text \<open>
  Lines 174 to 176: the default for \<open>seconds = 0\<close> and the product
  \<open>seconds * 1000\<close>, computed in \<open>unsigned int\<close> (of the width of \<open>seconds\<close>) and
  then widened to \<open>unsigned long\<close>.
\<close>

definition calibrate_totalMillis :: "'a::len word \<Rightarrow> ulong" where
  "calibrate_totalMillis seconds =
     (let seconds = (if seconds = 0 then 10000 else seconds)
      in ucast (seconds * 1000))"

definition clamp_progress :: "cfloat \<Rightarrow> cfloat" where
  "clamp_progress progress =
     (case progress of
        Finite p \<Rightarrow> if p < 0 then Finite 0 else if p > 1 then Finite 1 else Finite p
      | NonFinite \<Rightarrow> NonFinite)"

text \<open>
  The session reads the clock and the bus once per iteration; \<open>env\<close> lists what they
  return, iteration by iteration. The outcome is \<open>Finished\<close> with the final state
  and the calls made to the callback, \<open>Undefined\<close> when a read has no defined
  result, or \<open>Polling\<close> when the loop has not ended after the last listed iteration.
\<close>

datatype session = Finished compass "(cfloat \<times> bool) list" | Undefined | Polling

fun calibrate_loop ::
  "ulong \<Rightarrow> ulong \<Rightarrow> (ulong \<times> int \<times> byte list) list \<Rightarrow> compass
     \<Rightarrow> (cfloat \<times> bool) list \<Rightarrow> session" where
  "calibrate_loop totalMillis startTime [] s cb = Polling"
| "calibrate_loop totalMillis startTime ((currentTime, err, rx) # env) s cb =
     (let elapsedMillis = currentTime - startTime;
          elapsedMillis = (if elapsedMillis > totalMillis then totalMillis else elapsedMillis);
          progress = clamp_progress
                       (fdiv (real (unat elapsedMillis)) (real (unat totalMillis)))
      in case read err rx s of
           None \<Rightarrow> Undefined
         | Some (_, s) \<Rightarrow>
             (let (foundNewValue, s) = track_extrema (getX s) (getY s) (getZ s) s;
                  cb = cb @ [(progress, foundNewValue)]
              in if elapsedMillis < totalMillis
                 then calibrate_loop totalMillis startTime env s cb
                 else Finished
                        (setCalibration (minX s) (maxX s) (minY s) (maxY s) (minZ s) (maxZ s) s)
                        (cb @ [(Finite 1, False)])))"

definition calibrate ::
  "uint \<Rightarrow> ulong \<Rightarrow> (ulong \<times> int \<times> byte list) list \<Rightarrow> compass \<Rightarrow> session" where
  "calibrate seconds startTime env s =
     (let s = clearCalibration s;
          s = s\<lparr>minX := getX s, maxX := getX s\<rparr>;
          s = s\<lparr>minY := getY s, maxY := getY s\<rparr>;
          s = s\<lparr>minZ := getZ s, maxZ := getZ s\<rparr>;
          totalMillis = calibrate_totalMillis seconds
      in calibrate_loop totalMillis startTime env s [(Finite 0, True)])"

section \<open>Heading calculator\<close>

text \<open>\<open>atan2\<close> of the C library, by its mathematical definition (\<open>atan2(0, 0) = 0\<close>).\<close>

definition atan2 :: "real \<Rightarrow> real \<Rightarrow> real" where
  "atan2 y x =
     (if 0 < x then arctan (y / x)
      else if x < 0 then (if 0 \<le> y then arctan (y / x) + pi else arctan (y / x) - pi)
      else if 0 < y then pi / 2
      else if y < 0 then - (pi / 2)
      else 0)"

definition setMagneticDeclination :: "int \<Rightarrow> byte \<Rightarrow> compass \<Rightarrow> compass" where
  "setMagneticDeclination degrees minutes s =
     s\<lparr>magneticDeclinationDegrees := real_of_int degrees + real (unat minutes) / 60\<rparr>"

text \<open>\<open>(int)heading % 360\<close>: the remainder of C++ truncates, as \<open>smod\<close> does.\<close>

definition getAzimuth :: "compass \<Rightarrow> int" where
  "getAzimuth s =
     (let heading = atan2 (real_of_int (getY s)) (real_of_int (getX s)) * 180 / pi;
          heading = heading + magneticDeclinationDegrees s
      in c_trunc heading smod 360)"

text \<open>
  Conversions of a \<open>double\<close> to \<open>unsigned long\<close> and to \<open>byte\<close>: the value is
  truncated, and the result is defined only when the truncated value fits the type.
\<close>

definition double_to_ulong :: "real \<Rightarrow> ulong option" where
  "double_to_ulong d =
     (let t = c_trunc d in if 0 \<le> t \<and> t < 2 ^ 32 then Some (word_of_int t) else None)"

definition double_to_byte :: "real \<Rightarrow> byte option" where
  "double_to_byte d =
     (let t = c_trunc d in if 0 \<le> t \<and> t < 2 ^ 8 then Some (word_of_int t) else None)"

definition ulong_to_double :: "ulong \<Rightarrow> real" where
  "ulong_to_double a = real (unat a)"

text \<open>
  \<open>getBearing\<close>, with the types of the source: \<open>a\<close> and \<open>r\<close> are
  \<open>unsigned long\<close>, so the quotient is truncated when it is stored in \<open>a\<close>, and
  \<open>r = a - (int)a\<close> is computed on integers.
\<close>

definition getBearing :: "int \<Rightarrow> byte option" where
  "getBearing azimuth =
     (case double_to_ulong
             (if real_of_int azimuth > - 0.5 then real_of_int azimuth / 22.5
              else real_of_int (azimuth + 360) / 22.5) of
        None \<Rightarrow> None
      | Some a \<Rightarrow>
          (let r = a - word_of_int (sint a) in
           double_to_byte
             (if ulong_to_double r \<ge> 0.5 then real_of_int \<lceil>ulong_to_double a\<rceil>
              else real_of_int \<lfloor>ulong_to_double a\<rfloor>)))"

definition bearings :: "string list" where
  "bearings =
     [''  N'', ''NNE'', '' NE'', ''ENE'', ''  E'', ''ESE'', '' SE'', ''SSE'',
      ''  S'', ''SSW'', '' SW'', ''WSW'', ''  W'', ''WNW'', '' NW'', ''NNW'']"

text \<open>
  \<open>getDirection\<close> copies \<open>_bearings[d]\<close> to the caller's array. The table has 16
  rows; reading row 16 or above is outside the array and gives \<open>None\<close>.
\<close>

definition getDirection :: "int \<Rightarrow> string option" where
  "getDirection azimuth =
     (case getBearing azimuth of
        None \<Rightarrow> None
      | Some d \<Rightarrow> if unat d < length bearings then Some (bearings ! unat d) else None)"

text \<open>The sector as the specification words it: \<open>round(q)\<close> with halves rounded up.\<close>

definition round_half_up :: "real \<Rightarrow> int" where
  "round_half_up q = \<lfloor>q + 1 / 2\<rfloor>"

definition bearing_spec :: "int \<Rightarrow> int" where
  "bearing_spec azimuth =
     (if 0 \<le> azimuth then round_half_up (real_of_int azimuth / 22.5)
      else round_half_up (real_of_int (azimuth + 360) / 22.5))"

section \<open>The public interface as a transition system\<close>

text \<open>
  One constructor per public member function, with its arguments and what the bus and
  the clock return during the call. \<open>exec\<close> gives the driver object after the call, or
  \<open>None\<close> when the call has no defined outcome or does not return within the listed
  iterations; \<open>run\<close> performs a sequence of calls.
\<close>

datatype call =
    Init
  | SetADDR byte
  | SetAutocalibrate bool
  | SetMode byte byte byte byte
  | SetMagneticDeclination int byte
  | SetSmoothing byte bool
  | Calibrate uint ulong "(ulong \<times> int \<times> byte list) list"
  | SetCalibration int int int int int int
  | SetCalibrationOffsets cfloat cfloat cfloat
  | SetCalibrationScales cfloat cfloat cfloat
  | GetCalibrationOffset byte
  | GetCalibrationScale byte
  | ClearCalibration
  | SetReset
  | Read int "byte list"
  | GetX
  | GetY
  | GetZ
  | GetAzimuth
  | GetBearing int
  | GetDirection int

fun exec :: "call \<Rightarrow> compass \<Rightarrow> compass option" where
  "exec Init s = Some s"
| "exec (SetADDR b) s = Some (setADDR b s)"
| "exec (SetAutocalibrate e) s = Some (setAutocalibrate e s)"
| "exec (SetMode mode odr rng osr) s = Some s"
| "exec (SetMagneticDeclination degrees minutes) s =
     Some (setMagneticDeclination degrees minutes s)"
| "exec (SetSmoothing steps adv) s = Some (setSmoothing steps adv s)"
| "exec (Calibrate seconds startTime env) s =
     (case calibrate seconds startTime env s of
        Finished s' cb \<Rightarrow> Some s'
      | Undefined \<Rightarrow> None
      | Polling \<Rightarrow> None)"
| "exec (SetCalibration x_min x_max y_min y_max z_min z_max) s =
     Some (setCalibration x_min x_max y_min y_max z_min z_max s)"
| "exec (SetCalibrationOffsets x y z) s = Some (setCalibrationOffsets x y z s)"
| "exec (SetCalibrationScales x y z) s = Some (setCalibrationScales x y z s)"
| "exec (GetCalibrationOffset index) s =
     (case getCalibrationOffset index s of None \<Rightarrow> None | Some v \<Rightarrow> Some s)"
| "exec (GetCalibrationScale index) s =
     (case getCalibrationScale index s of None \<Rightarrow> None | Some v \<Rightarrow> Some s)"
| "exec ClearCalibration s = Some (clearCalibration s)"
| "exec SetReset s = Some s"
| "exec (Read err rx) s =
     (case read err rx s of None \<Rightarrow> None | Some (foundNewValue, s') \<Rightarrow> Some s')"
| "exec GetX s = Some s"
| "exec GetY s = Some s"
| "exec GetZ s = Some s"
| "exec GetAzimuth s = Some s"
| "exec (GetBearing azimuth) s =
     (case getBearing azimuth of None \<Rightarrow> None | Some d \<Rightarrow> Some s)"
| "exec (GetDirection azimuth) s =
     (case getDirection azimuth of None \<Rightarrow> None | Some d \<Rightarrow> Some s)"

fun run :: "call list \<Rightarrow> compass \<Rightarrow> compass option" where
  "run [] s = Some s"
| "run (c # cs) s = (case exec c s of None \<Rightarrow> None | Some s' \<Rightarrow> run cs s')"

section \<open>Well-formed driver objects\<close>

text \<open>
  The arrays of the class have fixed sizes, the cursor is never negative and
  \<open>setSmoothing\<close> keeps the capacity at 10 or below. \<open>rewind\<close> is the wrap-around
  test at the head of \<open>_smoothing\<close>; \<open>totals_ok\<close> says that the running total of an
  axis is the sum of its ring-buffer entries.
\<close>

definition well_formed :: "compass \<Rightarrow> bool" where
  "well_formed s \<longleftrightarrow>
     length (vHistory s) = 10 \<and> list_all (\<lambda>row. length row = 3) (vHistory s)
     \<and> length (vTotals s) = 3 \<and> length (vSmooth s) = 3
     \<and> length (vRaw s) = 3 \<and> length (vCalibrated s) = 3
     \<and> length (offset s) = 3 \<and> length (scale s) = 3
     \<and> 0 \<le> vScan s \<and> smoothSteps s \<le> 10"

definition rewind :: "compass \<Rightarrow> compass" where
  "rewind s = (if vScan s > uint (smoothSteps s) - 1 then s\<lparr>vScan := 0\<rparr> else s)"

definition totals_ok :: "compass \<Rightarrow> nat \<Rightarrow> bool" where
  "totals_ok s i \<longleftrightarrow> vTotals s ! i = buffer_sum s i"

chapter \<open>Properties\<close>

section \<open>Unfolding rules for evaluation\<close>

lemmas ctor_defs = static_compass_def QMC5883LCompass_def zero_history_def zero_row_def

lemmas get_defs = getX_def getY_def getZ_def get_def

lemmas calib_defs = setCalibration_def setCalibrationOffsets_def setCalibrationScales_def
  clearCalibration_def track_extrema_def applyCalibrationIfNecessary_def applyCalibration_def
  calibrated_axis_def fdiv_def c_round_def

lemmas smooth_defs = smoothing_def smoothing_axis_def scan_max_def scan_min_def fdiv_def
  c_round_def

lemmas read_defs = read_def read_axis_def

lemmas bearing_defs = getBearing_def double_to_ulong_def double_to_byte_def c_trunc_def
  ulong_to_double_def

section \<open>Heading calculator: bearing\<close>

text \<open>
  Stored in an \<open>unsigned long\<close>, the quotient \<open>azimuth / 22.5\<close> loses its fraction:
  for a non-negative azimuth it is \<open>2 * azimuth div 45\<close>.
\<close>

lemma c_trunc_quotient:
  assumes "0 \<le> azimuth"
  shows "c_trunc (real_of_int azimuth / 22.5) = 2 * azimuth div 45"
proof -
  have "real_of_int azimuth / 22.5 = real_of_int (2 * azimuth) / real_of_int 45"
    by simp
  then have "\<lfloor>real_of_int azimuth / 22.5\<rfloor> = 2 * azimuth div 45"
    by (simp only: floor_divide_of_int_eq)
  with assms show ?thesis
    by (simp add: c_trunc_def)
qed

text \<open>
  The fraction \<open>r\<close> is a difference of integers and is always 0, so the branch
  \<open>ceil\<close> is never taken: \<open>getBearing\<close> truncates.
\<close>

lemma getBearing_truncates:
  assumes "0 \<le> azimuth" and "azimuth < 5760"
  shows "getBearing azimuth = Some (word_of_int (2 * azimuth div 45))"
proof -
  let ?t = "2 * azimuth div 45"
  have t: "0 \<le> ?t" "?t < 256"
    using assms by auto
  have a: "double_to_ulong (real_of_int azimuth / 22.5) = Some (word_of_int ?t)"
    unfolding double_to_ulong_def c_trunc_quotient [OF assms(1)] using t by simp
  have u: "unat (word_of_int ?t :: ulong) = nat ?t"
    using t by (simp add: unat_eq_nat_uint uint_word_of_int take_bit_int_eq_self)
  have c: "real_of_int azimuth > - 0.5"
    using assms by simp
  have b: "double_to_byte (real_of_int \<lfloor>ulong_to_double (word_of_int ?t)\<rfloor>)
             = Some (word_of_int ?t)"
    using t by (simp add: u ulong_to_double_def double_to_byte_def c_trunc_def)
  show ?thesis
    unfolding getBearing_def using c b [unfolded ulong_to_double_def]
    by (simp only: a if_True option.case Let_def) (simp add: ulong_to_double_def)
qed

text \<open>
  C1. The claim: for every azimuth \<open>\<ge> 0\<close>, \<open>getBearing\<close> returns
  \<open>azimuth / 22.5\<close> rounded half up, and for a negative azimuth
  \<open>(azimuth + 360) / 22.5\<close> rounded half up. The code does not round. At azimuth 12
  the quotient is 0.533, which rounds to sector 1, and \<open>getBearing\<close> returns sector
  0; at azimuth -10 the quotient is 15.56, which rounds to 16, and \<open>getBearing\<close>
  returns 15.
\<close>

theorem getBearing_12_not_rounded:
  "getBearing 12 = Some 0 \<and> bearing_spec 12 = 1
     \<and> getBearing (- 10) = Some 15 \<and> bearing_spec (- 10) = 16"
  by (simp add: bearing_defs bearing_spec_def round_half_up_def)

text \<open>
  C8. The claim: \<open>getBearing(0)\<close> is sector 0 and \<open>getBearing(360)\<close> wraps back to
  sector 0, both inside the 16-entry table. The first half holds; at 360 the code
  returns 16, and \<open>getDirection\<close> then reads past the last row of the table.
\<close>

theorem getBearing_360_is_16:
  "getBearing 0 = Some 0 \<and> getDirection 0 = Some ''  N''
     \<and> getBearing 360 = Some 16 \<and> getDirection 360 = None"
  by (simp add: getDirection_def bearings_def bearing_defs)

section \<open>Heading calculator: azimuth\<close>

lemma smod_360_range: "- 360 < (k::int) smod 360 \<and> k smod 360 < 360"
proof -
  have "\<bar>k\<bar> mod 360 < 360" and "0 \<le> \<bar>k\<bar> mod 360"
    by simp_all
  then show ?thesis
    by (cases "k < 0") (auto simp: smod_int_alt_def sgn_if)
qed

text \<open>
  C9. For every state of the driver (every pair of axis readings, every declination),
  \<open>getAzimuth\<close> returns an integer strictly between -360 and 360. The bound is one
  of the truncating remainder alone, so it does not depend on how the heading is
  rounded or cast. The value is not normalised to \<open>[0, 360)\<close>: with the readings
  \<open>x = 0\<close>, \<open>y = -1\<close> and no declination it is -90.
\<close>

theorem getAzimuth_range:
  "(- 360 < getAzimuth s \<and> getAzimuth s < 360)
     \<and> getAzimuth (static_compass\<lparr>vCalibrated := [0, - 1, 0]\<rparr>) = - 90"
proof
  show "- 360 < getAzimuth s \<and> getAzimuth s < 360"
    unfolding getAzimuth_def Let_def by (rule smod_360_range)
  show "getAzimuth (static_compass\<lparr>vCalibrated := [0, - 1, 0]\<rparr>) = - 90"
    by (simp add: getAzimuth_def ctor_defs get_defs atan2_def c_trunc_def smod_int_alt_def)
qed

section \<open>Binary32 rounding\<close>

text \<open>
  \<open>expo\<close> is the binary exponent, and \<open>r32\<close> leaves unchanged every value whose
  significand fits 24 bits: the integers up to \<open>2^24\<close> in magnitude and their
  halves are computed without error.
\<close>

lemma pow2_pos: "0 < pow2 k"
  by (simp add: pow2_def)

lemma pow2_powi: "pow2 k = 2 powi k"
  by (simp add: pow2_def power_int_def field_simps)

lemma pow2_add: "pow2 (j + k) = pow2 j * pow2 k"
  by (simp add: pow2_powi power_int_add)

lemma pow2_mono: "j \<le> k \<Longrightarrow> pow2 j \<le> pow2 k"
  by (simp add: pow2_powi power_int_increasing)

lemma pow2_strict_mono: "j < k \<Longrightarrow> pow2 j < pow2 k"
  by (simp add: pow2_powi power_int_strict_increasing)

lemma pow2_nat: "0 \<le> k \<Longrightarrow> pow2 k = real_of_int (2 ^ nat k)"
  by (simp add: pow2_def)

lemma expo_bounds:
  assumes "x \<noteq> 0"
  shows "pow2 (expo x) \<le> \<bar>x\<bar> \<and> \<bar>x\<bar> < pow2 (expo x + 1)"
proof (cases "1 \<le> \<bar>x\<bar>")
  case True
  let ?n = "\<lfloor>\<bar>x\<bar>\<rfloor>"
  have n: "0 < ?n" using True by linarith
  from bitlen_bounds [OF n] have b: "2 ^ nat (bitlen ?n - 1) \<le> ?n" "?n < 2 ^ nat (bitlen ?n)"
    by simp_all
  have k: "1 \<le> bitlen ?n" using n by (simp add: bitlen_alt_def)
  have "real_of_int (2 ^ nat (bitlen ?n - 1)) \<le> real_of_int ?n"
    using b(1) by (rule of_int_le_iff [THEN iffD2])
  also have "\<dots> \<le> \<bar>x\<bar>" by linarith
  finally have lo: "pow2 (bitlen ?n - 1) \<le> \<bar>x\<bar>"
    using k by (simp add: pow2_def)
  have "?n + 1 \<le> 2 ^ nat (bitlen ?n)" using b(2) by simp
  then have "real_of_int (?n + 1) \<le> real_of_int (2 ^ nat (bitlen ?n))"
    by (rule of_int_le_iff [THEN iffD2])
  then have h1: "real_of_int ?n + 1 \<le> 2 ^ nat (bitlen ?n)" by simp
  have h2: "\<bar>x\<bar> < real_of_int ?n + 1" by linarith
  from h1 h2 have "\<bar>x\<bar> < 2 ^ nat (bitlen ?n)" by linarith
  then have hi: "\<bar>x\<bar> < pow2 (bitlen ?n)"
    using k by (simp add: pow2_def)
  from lo hi True show ?thesis by (simp add: expo_def)
next
  case False
  define y where "y = 1 / \<bar>x\<bar>"
  define c where "c = \<lceil>y\<rceil>"
  define k where "k = bitlen (c - 1)"
  have x: "0 < \<bar>x\<bar>" "\<bar>x\<bar> < 1" using assms False by simp_all
  then have y: "1 < y" by (simp add: y_def)
  have cy: "real_of_int c - 1 < y" "y \<le> real_of_int c"
    unfolding c_def by linarith+
  with y have m: "0 < c - 1" by linarith
  from bitlen_bounds [OF m] have b: "2 ^ nat (k - 1) \<le> c - 1" "c \<le> 2 ^ nat k"
    by (simp_all add: k_def)
  have k: "1 \<le> k" using m by (simp add: k_def bitlen_alt_def)
  have "real_of_int (2 ^ nat (k - 1)) \<le> real_of_int (c - 1)"
    using b(1) by (rule of_int_le_iff [THEN iffD2])
  then have r1: "2 ^ nat (k - 1) \<le> real_of_int c - 1" by simp
  have "real_of_int c \<le> real_of_int (2 ^ nat k)"
    using b(2) by (rule of_int_le_iff [THEN iffD2])
  then have r2: "real_of_int c \<le> 2 ^ nat k" by simp
  from r1 cy(1) have "2 ^ nat (k - 1) < y" by linarith
  then have lt: "2 ^ nat (k - 1) * \<bar>x\<bar> < 1"
    using x(1) by (simp add: y_def field_simps)
  from r2 cy(2) have "y \<le> 2 ^ nat k" by linarith
  then have ge: "1 \<le> 2 ^ nat k * \<bar>x\<bar>"
    using x(1) by (simp add: y_def field_simps)
  have lo: "pow2 (- k) \<le> \<bar>x\<bar>"
    using k ge by (simp add: pow2_def field_simps)
  have hi: "\<bar>x\<bar> < pow2 (- k + 1)"
  proof (cases "k = 1")
    case True
    with x(2) show ?thesis by (simp add: pow2_def)
  next
    case False
    with k have "nat (- (1 - k)) = nat (k - 1)" "\<not> 0 \<le> 1 - k" by simp_all
    with lt show ?thesis
      by (simp add: pow2_def field_simps)
  qed
  have "expo x = - k"
    using False by (simp add: expo_def k_def c_def y_def)
  with lo hi show ?thesis by simp
qed

lemma r32_zero [simp]: "r32 0 = 0"
  by (simp add: r32_def)

lemma round_even_of_int: "round_even (real_of_int m) = m"
  by (simp add: round_even_def)

lemma r32_integral:
  assumes "x = real_of_int m * pow2 (expo x - 23)"
  shows "r32 x = x"
proof (cases "x = 0")
  case True
  then show ?thesis by (simp add: r32_def)
next
  case False
  let ?q = "pow2 (expo x - 23)"
  have "x / ?q = real_of_int m"
    using pow2_pos [of "expo x - 23"] by (subst assms) simp
  then have "round_even (x / ?q) = m"
    by (simp add: round_even_of_int)
  with False assms show ?thesis
    by (simp add: r32_def Let_def)
qed

lemma r32_exact:
  assumes "\<bar>n\<bar> \<le> 2 ^ 24"
  shows "r32 (real_of_int n * pow2 k) = real_of_int n * pow2 k"
proof (cases "n = 0")
  case True
  then show ?thesis by (simp add: r32_def)
next
  case False
  define x where "x = real_of_int n * pow2 k"
  define e where "e = expo x"
  define j where "j = k - e + 23"
  have x0: "x \<noteq> 0"
    using False pow2_pos [of k] by (simp add: x_def)
  have ax: "\<bar>x\<bar> = real_of_int \<bar>n\<bar> * pow2 k"
    using pow2_pos [of k] by (simp add: x_def abs_mult)
  from expo_bounds [OF x0] have lo: "pow2 e \<le> \<bar>x\<bar>"
    by (simp add: e_def)
  have "real_of_int \<bar>n\<bar> \<le> real_of_int (2 ^ 24)"
    using assms by (rule of_int_le_iff [THEN iffD2])
  then have n24: "real_of_int \<bar>n\<bar> \<le> pow2 24"
    by (simp add: pow2_def)
  have "\<bar>x\<bar> \<le> pow2 24 * pow2 k"
    unfolding ax using n24 pow2_pos [of k] by (simp add: mult_right_mono)
  then have up: "\<bar>x\<bar> \<le> pow2 (24 + k)"
    by (simp add: pow2_add)
  have e_le: "e \<le> 24 + k"
  proof (rule ccontr)
    assume "\<not> e \<le> 24 + k"
    then have "pow2 (24 + k) < pow2 e" by (simp add: pow2_strict_mono)
    with lo up show False by linarith
  qed
  have split: "pow2 k = pow2 j * pow2 (e - 23)"
    by (simp add: j_def pow2_add [symmetric])
  obtain m where m: "real_of_int n * pow2 j = real_of_int m"
  proof (cases "0 \<le> j")
    case True
    then have "real_of_int n * pow2 j = real_of_int (n * 2 ^ nat j)"
      by (simp add: pow2_nat)
    then show ?thesis by (rule that)
  next
    case False
    with e_le have ej: "e = 24 + k" "j = - 1" by (simp_all add: j_def)
    from lo have "pow2 24 * pow2 k \<le> real_of_int \<bar>n\<bar> * pow2 k"
      by (simp add: ej ax pow2_add)
    then have "pow2 24 \<le> real_of_int \<bar>n\<bar>"
      using pow2_pos [of k] by simp
    with n24 have "real_of_int \<bar>n\<bar> = real_of_int (2 ^ 24)" by (simp add: pow2_def)
    then have "\<bar>n\<bar> = 2 ^ 24" by (simp only: of_int_eq_iff)
    then have "n = 2 ^ 24 \<or> n = - (2 ^ 24)" by linarith
    then have "real_of_int n * pow2 j = real_of_int (n div 2)"
      by (auto simp: ej pow2_def)
    then show ?thesis by (rule that)
  qed
  have "x = real_of_int m * pow2 (expo x - 23)"
    unfolding e_def [symmetric] using m by (simp add: x_def split)
  then have "r32 x = x" by (rule r32_integral)
  then show ?thesis by (simp add: x_def)
qed

lemma r32_of_int: "\<bar>n\<bar> \<le> 2 ^ 24 \<Longrightarrow> r32 (real_of_int n) = real_of_int n"
  using r32_exact [of n 0] by (simp add: pow2_def)

lemma r32_half_int: "\<bar>n\<bar> \<le> 2 ^ 24 \<Longrightarrow> r32 (real_of_int n / 2) = real_of_int n / 2"
  using r32_exact [of n "- 1"] by (simp add: pow2_def)

text \<open>
  Rounding moves a value by at most half the spacing, that is by a relative error of
  at most \<open>2^-24\<close>, and it keeps the value inside any range bounded by powers of two:
  it creates neither overflow nor underflow.
\<close>

lemma round_even_between:
  assumes "real_of_int L \<le> y" and "y \<le> real_of_int U"
  shows "L \<le> round_even y \<and> round_even y \<le> U"
proof -
  have lo: "L \<le> \<lfloor>y\<rfloor>" using assms(1) by (simp add: le_floor_iff)
  have up: "\<lfloor>y\<rfloor> \<le> U" using assms(2) by (simp add: floor_le_iff)
  have up1: "\<lfloor>y\<rfloor> + 1 \<le> U" if "y \<noteq> real_of_int \<lfloor>y\<rfloor>"
  proof -
    have "real_of_int \<lfloor>y\<rfloor> < y" using that by linarith
    with assms(2) have "real_of_int \<lfloor>y\<rfloor> < real_of_int U" by linarith
    then show ?thesis by simp
  qed
  show ?thesis
    using lo up up1 by (auto simp: round_even_def Let_def)
qed

lemma round_even_error: "\<bar>real_of_int (round_even y) - y\<bar> \<le> 1 / 2"
  by (auto simp: round_even_def Let_def)

lemma pow2_numeral: "pow2 23 = 2 ^ 23" "pow2 24 = 2 ^ 24" "pow2 1 = 2" "pow2 (- 24) = 1 / 2 ^ 24"
  by (simp_all add: pow2_def)

lemma r32_error:
  "\<bar>r32 x - x\<bar> \<le> pow2 (expo x - 24)"
proof (cases "x = 0")
  case True
  then show ?thesis using pow2_pos [of "expo x - 24"] by simp
next
  case False
  let ?q = "pow2 (expo x - 23)"
  have q: "0 < ?q" by (rule pow2_pos)
  have "pow2 (expo x - 24 + 1) = pow2 (expo x - 24) * pow2 1" by (rule pow2_add)
  then have h: "pow2 (expo x - 24) = ?q / 2"
    by (simp add: pow2_numeral)
  have "r32 x - x = (real_of_int (round_even (x / ?q)) - x / ?q) * ?q"
    using False q by (simp add: r32_def Let_def field_simps)
  then have "\<bar>r32 x - x\<bar> = \<bar>real_of_int (round_even (x / ?q)) - x / ?q\<bar> * ?q"
    using q by (simp add: abs_mult)
  also have "\<dots> \<le> 1 / 2 * ?q"
    using round_even_error [of "x / ?q"] q by (intro mult_right_mono) simp_all
  finally show ?thesis by (simp add: h)
qed

lemma r32_relative_error: "\<bar>r32 x - x\<bar> \<le> \<bar>x\<bar> / 2 ^ 24"
proof (cases "x = 0")
  case True
  then show ?thesis by simp
next
  case False
  have "pow2 (expo x + - 24) = pow2 (expo x) * pow2 (- 24)" by (rule pow2_add)
  then have "pow2 (expo x - 24) = pow2 (expo x) / 2 ^ 24" by (simp add: pow2_numeral)
  also have "\<dots> \<le> \<bar>x\<bar> / 2 ^ 24"
    using expo_bounds [OF False] by (simp add: divide_right_mono)
  finally show ?thesis using r32_error [of x] by linarith
qed

lemma r32_binade:
  assumes "x \<noteq> 0"
  shows "pow2 (expo x) \<le> \<bar>r32 x\<bar> \<and> \<bar>r32 x\<bar> \<le> pow2 (expo x + 1)"
proof -
  define q where "q = pow2 (expo x - 23)"
  define n where "n = round_even (x / q)"
  have q: "0 < q" unfolding q_def by (rule pow2_pos)
  have "pow2 (23 + (expo x - 23)) = pow2 23 * q" "pow2 (24 + (expo x - 23)) = pow2 24 * q"
    unfolding q_def by (rule pow2_add)+
  then have e: "pow2 (expo x) = 2 ^ 23 * q" "pow2 (expo x + 1) = 2 ^ 24 * q"
    by (simp_all add: pow2_numeral add.commute)
  from expo_bounds [OF assms] have ax: "2 ^ 23 * q \<le> \<bar>x\<bar>" "\<bar>x\<bar> \<le> 2 ^ 24 * q"
    by (simp_all add: e)
  have r: "r32 x = real_of_int n * q"
    using assms by (simp add: r32_def Let_def q_def n_def)
  have "2 ^ 23 \<le> \<bar>n\<bar> \<and> \<bar>n\<bar> \<le> 2 ^ 24"
  proof (cases "0 < x")
    case True
    with ax q have "real_of_int (2 ^ 23) \<le> x / q" "x / q \<le> real_of_int (2 ^ 24)"
      by (simp_all add: field_simps)
    from round_even_between [OF this] show ?thesis
      by (simp add: n_def)
  next
    case False
    with assms ax q have "real_of_int (- (2 ^ 24)) \<le> x / q" "x / q \<le> real_of_int (- (2 ^ 23))"
      by (simp_all add: field_simps)
    from round_even_between [OF this] show ?thesis
      by (simp add: n_def)
  qed
  then have "real_of_int (2 ^ 23) \<le> real_of_int \<bar>n\<bar>" "real_of_int \<bar>n\<bar> \<le> real_of_int (2 ^ 24)"
    by (simp_all only: of_int_le_iff)
  then have "2 ^ 23 * q \<le> real_of_int \<bar>n\<bar> * q" "real_of_int \<bar>n\<bar> * q \<le> 2 ^ 24 * q"
    using q by (simp_all add: mult_right_mono)
  moreover have "\<bar>r32 x\<bar> = real_of_int \<bar>n\<bar> * q"
    using q by (simp add: r abs_mult)
  ultimately show ?thesis by (simp add: e)
qed

lemma r32_range:
  assumes "pow2 a \<le> \<bar>x\<bar>" and "\<bar>x\<bar> \<le> pow2 b"
  shows "pow2 a \<le> \<bar>r32 x\<bar> \<and> \<bar>r32 x\<bar> \<le> pow2 b"
proof -
  have x: "x \<noteq> 0" using assms(1) pow2_pos [of a] by auto
  note eb = expo_bounds [OF x] and rb = r32_binade [OF x]
  have "a \<le> expo x"
  proof (rule ccontr)
    assume "\<not> a \<le> expo x"
    then have "pow2 (expo x + 1) \<le> pow2 a" by (simp add: pow2_mono)
    with eb assms(1) show False by linarith
  qed
  then have lo: "pow2 a \<le> \<bar>r32 x\<bar>"
    using rb pow2_mono [of a "expo x"] by linarith
  have "expo x \<le> b"
  proof (rule ccontr)
    assume "\<not> expo x \<le> b"
    then have "pow2 b < pow2 (expo x)" by (simp add: pow2_strict_mono)
    with eb assms(2) show False by linarith
  qed
  then consider "expo x + 1 \<le> b" | "expo x = b" by linarith
  then have "\<bar>r32 x\<bar> \<le> pow2 b"
  proof cases
    case 1
    then show ?thesis using rb pow2_mono [of "expo x + 1" b] by linarith
  next
    case 2
    with eb assms(2) have "\<bar>x\<bar> = pow2 (expo x)" by simp
    then have "x = real_of_int 1 * pow2 (expo x) \<or> x = real_of_int (- 1) * pow2 (expo x)"
      by (cases "0 \<le> x") simp_all
    then have "r32 x = x"
      using r32_exact [of 1 "expo x"] r32_exact [of "- 1" "expo x"] by auto
    with assms(2) show ?thesis by simp
  qed
  with lo show ?thesis ..
qed

lemma r32_eq_0_iff [simp]: "r32 x = 0 \<longleftrightarrow> x = 0"
  using r32_binade [of x] pow2_pos [of "expo x"] by (cases "x = 0") auto

lemma r32_le:
  assumes "\<bar>x\<bar> \<le> pow2 b"
  shows "\<bar>r32 x\<bar> \<le> pow2 b"
proof (cases "x = 0")
  case True
  then show ?thesis using pow2_pos [of b] by simp
next
  case False
  from expo_bounds [OF False] assms show ?thesis
    using r32_range [of "expo x" x b] by simp
qed

lemma r32_ge:
  assumes "pow2 a \<le> \<bar>x\<bar>"
  shows "pow2 a \<le> \<bar>r32 x\<bar>"
proof -
  have "x \<noteq> 0" using assms pow2_pos [of a] by auto
  from expo_bounds [OF this] assms show ?thesis
    using r32_range [of a x "expo x + 1"] by simp
qed

lemma expo_ge:
  assumes "pow2 a \<le> \<bar>x\<bar>"
  shows "a \<le> expo x"
proof (rule ccontr)
  assume "\<not> a \<le> expo x"
  then have "pow2 (expo x + 1) \<le> pow2 a" by (simp add: pow2_mono)
  moreover have "x \<noteq> 0" using assms pow2_pos [of a] by auto
  ultimately show False using expo_bounds [of x] assms by linarith
qed

lemma r32_coarse_Ints:
  assumes "pow2 23 \<le> \<bar>x\<bar>"
  shows "r32 x \<in> \<int>"
proof -
  have x: "x \<noteq> 0" using assms pow2_pos [of 23] by auto
  from expo_ge [OF assms] have "0 \<le> expo x - 23" by simp
  then have "pow2 (expo x - 23) = real_of_int (2 ^ nat (expo x - 23))"
    by (rule pow2_nat)
  then show ?thesis
    using x by (simp add: r32_def Let_def)
qed

lemma r32_half_Ints:
  assumes "2 * x \<in> \<int>"
  shows "2 * r32 x \<in> \<int>"
proof (cases "pow2 23 \<le> \<bar>x\<bar>")
  case True
  then have "r32 x \<in> \<int>" by (rule r32_coarse_Ints)
  then show ?thesis by simp
next
  case False
  from assms obtain m where m: "2 * x = real_of_int m" by (auto elim: Ints_cases)
  then have x: "x = real_of_int m / 2" by simp
  from False have "\<bar>real_of_int m\<bar> < real_of_int (2 ^ 24)"
    by (simp add: x pow2_numeral)
  then have "\<bar>m\<bar> < 2 ^ 24" by (simp only: of_int_abs [symmetric] of_int_less_iff)
  then have "r32 x = x" unfolding x by (intro r32_half_int) simp
  with assms show ?thesis by simp
qed

lemma r32_Ints:
  assumes "x \<in> \<int>"
  shows "r32 x \<in> \<int>"
proof (cases "pow2 23 \<le> \<bar>x\<bar>")
  case True
  then show ?thesis by (rule r32_coarse_Ints)
next
  case False
  from assms obtain m where x: "x = real_of_int m" by (auto elim: Ints_cases)
  from False have "\<bar>real_of_int m\<bar> < real_of_int (2 ^ 24)"
    by (simp add: x pow2_numeral)
  then have "\<bar>m\<bar> < 2 ^ 24" by (simp only: of_int_abs [symmetric] of_int_less_iff)
  then have "r32 x = x" unfolding x by (intro r32_of_int) simp
  with assms show ?thesis by simp
qed

lemma half_grid_ge:
  assumes "2 * x \<in> \<int>" and "x \<noteq> 0"
  shows "pow2 (- 1) \<le> \<bar>x\<bar>"
proof -
  from assms obtain m where m: "2 * x = real_of_int m" by (auto elim: Ints_cases)
  with assms(2) have "m \<noteq> 0" by auto
  then have "1 \<le> \<bar>m\<bar>" by simp
  then have "real_of_int 1 \<le> real_of_int \<bar>m\<bar>" by (simp only: of_int_le_iff)
  then have "1 \<le> \<bar>2 * x\<bar>" by (simp add: m)
  then show ?thesis by (simp add: pow2_def)
qed

lemma in_range32_grid:
  assumes "2 * x \<in> \<int>" and "\<bar>x\<bar> \<le> pow2 b" and "b \<le> 127"
  shows "in_range32 x"
proof (cases "x = 0")
  case True
  then show ?thesis by (simp add: in_range32_def)
next
  case False
  from half_grid_ge [OF assms(1) False] have "pow2 (- 126) \<le> \<bar>x\<bar>"
    using pow2_mono [of "- 126" "- 1"] by simp
  moreover have "\<bar>x\<bar> \<le> pow2 127"
    using assms(2) pow2_mono [OF assms(3)] by simp
  ultimately show ?thesis by (simp add: in_range32_def)
qed

lemmas r32_eval = r32_def expo_def pow2_def round_even_def bitlen_def compute_floorlog Let_def

lemmas f32_defs = f32_of_int_def f32_add_def f32_sub_def f32_mul_def f32_div_def fdiv32_def

lemmas formula_defs = midpoint_def half_product_def delta_def mean3_def

section \<open>Calibration\<close>

text \<open>
  C5. For arguments of type \<open>int\<close> with a nonzero delta on each axis,
  \<open>setCalibration\<close> stores the offsets \<open>(xMin + xMax) / 2\<close>, \<open>(yMin + yMax) / 2\<close>
  and \<open>(zMin * zMax) / 2\<close>, and the scales \<open>avg_delta / delta\<close> per axis, where
  \<open>delta = (max - min) / 2\<close> and \<open>avg_delta\<close> is the mean of the three deltas. The
  fields are of type \<open>float\<close> and the formulas are evaluated in that type, every
  operation rounded to binary32.
\<close>

theorem setCalibration_offsets_scales:
  assumes "int32 x_min" and "int32 x_max" and "int32 y_min" and "int32 y_max"
    and "int32 z_min" and "int32 z_max"
    and "delta x_min x_max \<noteq> 0" and "delta y_min y_max \<noteq> 0" and "delta z_min z_max \<noteq> 0"
  shows
    "let dx = delta x_min x_max; dy = delta y_min y_max; dz = delta z_min z_max;
         avg_delta = mean3 dx dy dz;
         s' = setCalibration x_min x_max y_min y_max z_min z_max s
     in offset s' =
          [Finite (midpoint x_min x_max), Finite (midpoint y_min y_max),
           Finite (half_product z_min z_max)]
      \<and> scale s' =
          [Finite (f32_div avg_delta dx), Finite (f32_div avg_delta dy),
           Finite (f32_div avg_delta dz)]"
  using assms(7-9)
  by (simp add: setCalibration_def setCalibrationOffsets_def setCalibrationScales_def
      fdiv32_def formula_defs Let_def)

text \<open>
  At the extrema -100, 300, -200, 200, -50, 150 the deltas are 200, 200 and 100, their
  mean is 500 / 3 rounded to 10922667 / 65536, and the stored scales are the binary32
  neighbours of 5 / 6 and 5 / 3.
\<close>

theorem setCalibration_offsets_scales_witness:
  "int32 (- 100) \<and> int32 300 \<and> int32 (- 200) \<and> int32 200 \<and> int32 (- 50) \<and> int32 150
     \<and> delta (- 100) 300 \<noteq> 0 \<and> delta (- 200) 200 \<noteq> 0 \<and> delta (- 50) 150 \<noteq> 0
     \<and> offset (setCalibration (- 100) 300 (- 200) 200 (- 50) 150 static_compass)
           = [Finite 100, Finite 0, Finite (- 3750)]
     \<and> scale (setCalibration (- 100) 300 (- 200) 200 (- 50) 150 static_compass)
           = [Finite (6990507 / 8388608), Finite (6990507 / 8388608),
              Finite (6990507 / 4194304)]"
proof -
  have d: "delta (- 100) 300 = 200" "delta (- 200) 200 = 200" "delta (- 50) 150 = 100"
    by (simp_all add: formula_defs f32_defs r32_eval)
  have m: "mean3 200 200 100 = 10922667 / 65536"
    by (simp add: formula_defs f32_defs r32_eval)
  have q: "f32_div (10922667 / 65536) 200 = 6990507 / 8388608"
    "f32_div (10922667 / 65536) 100 = 6990507 / 4194304"
    by (simp_all add: f32_defs r32_eval)
  have o: "midpoint (- 100) 300 = 100" "midpoint (- 200) 200 = 0"
    "half_product (- 50) 150 = - 3750"
    by (simp_all add: formula_defs f32_defs r32_eval)
  have i: "int32 (- 100)" "int32 300" "int32 (- 200)" "int32 200" "int32 (- 50)" "int32 150"
    by (simp_all add: int32_def)
  from setCalibration_offsets_scales [of "- 100" 300 "- 200" 200 "- 50" 150 static_compass]
  show ?thesis
    by (simp add: Let_def d m q o i)
qed

text \<open>
  The rounding is visible in the stored values: the z offset of the extrema -4097 and
  4097 is -8392704, half of the product rounded to 24 bits, and two extrema that
  differ only beyond the 24th bit have the delta 0.
\<close>

lemma half_product_rounded: "half_product (- 4097) 4097 = - 8392704"
  by (simp add: formula_defs f32_defs r32_eval)

lemma delta_rounded_to_zero: "delta 16777216 16777217 = 0"
  by (simp add: formula_defs f32_defs r32_eval)

text \<open>
  Within 23 bits, which covers the 16-bit samples of the chip, the midpoints and the
  deltas are exact, and so is the product form while the product fits 24 bits.
\<close>

lemma midpoint_exact:
  assumes "\<bar>lo\<bar> \<le> 2 ^ 23" and "\<bar>hi\<bar> \<le> 2 ^ 23"
  shows "midpoint lo hi = (real_of_int lo + real_of_int hi) / 2"
proof -
  have "\<bar>lo\<bar> \<le> 2 ^ 24" "\<bar>hi\<bar> \<le> 2 ^ 24" "\<bar>lo + hi\<bar> \<le> 2 ^ 24"
    using assms by simp_all
  then have "r32 (real_of_int lo) = real_of_int lo" "r32 (real_of_int hi) = real_of_int hi"
    "r32 (real_of_int (lo + hi)) = real_of_int (lo + hi)"
    "r32 (real_of_int (lo + hi) / 2) = real_of_int (lo + hi) / 2"
    by (simp_all only: r32_of_int r32_half_int)
  then show ?thesis
    by (simp add: midpoint_def f32_defs)
qed

lemma delta_exact:
  assumes "\<bar>lo\<bar> \<le> 2 ^ 23" and "\<bar>hi\<bar> \<le> 2 ^ 23"
  shows "delta lo hi = (real_of_int hi - real_of_int lo) / 2"
proof -
  have "\<bar>lo\<bar> \<le> 2 ^ 24" "\<bar>hi\<bar> \<le> 2 ^ 24" "\<bar>hi - lo\<bar> \<le> 2 ^ 24"
    using assms by simp_all
  then have "r32 (real_of_int lo) = real_of_int lo" "r32 (real_of_int hi) = real_of_int hi"
    "r32 (real_of_int (hi - lo)) = real_of_int (hi - lo)"
    "r32 (real_of_int (hi - lo) / 2) = real_of_int (hi - lo) / 2"
    by (simp_all only: r32_of_int r32_half_int)
  then show ?thesis
    by (simp add: delta_def f32_defs)
qed

lemma half_product_exact:
  assumes "\<bar>lo\<bar> \<le> 2 ^ 24" and "\<bar>hi\<bar> \<le> 2 ^ 24" and "\<bar>lo * hi\<bar> \<le> 2 ^ 24"
  shows "half_product lo hi = (real_of_int lo * real_of_int hi) / 2"
proof -
  from assms have "r32 (real_of_int lo) = real_of_int lo" "r32 (real_of_int hi) = real_of_int hi"
    "r32 (real_of_int (lo * hi)) = real_of_int (lo * hi)"
    "r32 (real_of_int (lo * hi) / 2) = real_of_int (lo * hi) / 2"
    by (simp_all only: r32_of_int r32_half_int)
  then show ?thesis
    by (simp add: half_product_def f32_defs)
qed

text \<open>
  On arguments of type \<open>int\<close> the exact result of every operation of
  \<open>setCalibration\<close> is 0 or lies in the range of the normal binary32 values: the
  conversions, sums, differences and the product are integers below \<open>2^63\<close>, their
  halves and the deltas are multiples of 1/2, a nonzero mean is at least \<open>2^-3\<close> and a
  quotient by a nonzero delta at least \<open>2^-34\<close> in magnitude.
\<close>

lemma whole_of_int32: "int32 n \<Longrightarrow> whole 31 (real_of_int n)"
proof -
  assume "int32 n"
  then have "\<bar>n\<bar> \<le> 2 ^ 31" by (auto simp: int32_def)
  then have "real_of_int \<bar>n\<bar> \<le> real_of_int (2 ^ 31)" by (simp only: of_int_le_iff)
  then show ?thesis by (simp add: whole_def pow2_def)
qed

lemma whole_r32: "whole b x \<Longrightarrow> whole b (r32 x)"
  by (simp add: whole_def r32_Ints r32_le)

lemma halves_r32: "halves b x \<Longrightarrow> halves b (r32 x)"
  by (simp add: halves_def r32_half_Ints r32_le)

lemma pow2_double: "pow2 b + pow2 b = pow2 (b + 1)"
  using pow2_add [of b 1] by (simp add: pow2_numeral)

lemma whole_add: "whole b x \<Longrightarrow> whole b y \<Longrightarrow> whole (b + 1) (x + y)"
  unfolding whole_def pow2_double [symmetric] by (auto intro: order_trans [OF abs_triangle_ineq])

lemma whole_diff: "whole b x \<Longrightarrow> whole b y \<Longrightarrow> whole (b + 1) (x - y)"
  unfolding whole_def pow2_double [symmetric] by (auto intro: order_trans [OF abs_triangle_ineq4])

lemma whole_mult: "whole a x \<Longrightarrow> whole b y \<Longrightarrow> whole (a + b) (x * y)"
  unfolding whole_def pow2_add by (auto simp: abs_mult intro: mult_mono)

lemma halves_half: "whole b x \<Longrightarrow> halves (b - 1) (x / 2)"
  using pow2_add [of "b - 1" 1] by (simp add: whole_def halves_def pow2_numeral)

lemma halves_add: "halves b x \<Longrightarrow> halves b y \<Longrightarrow> halves (b + 1) (x + y)"
  unfolding halves_def pow2_double [symmetric]
  by (auto simp: distrib_left intro: order_trans [OF abs_triangle_ineq])

lemma halves_mono: "halves a x \<Longrightarrow> a \<le> b \<Longrightarrow> halves b x"
  using pow2_mono [of a b] by (auto simp: halves_def)

lemma in_range32_whole: "whole b x \<Longrightarrow> b \<le> 127 \<Longrightarrow> in_range32 x"
  by (rule in_range32_grid [of x b]) (simp_all add: whole_def)

lemma in_range32_halves: "halves b x \<Longrightarrow> b \<le> 127 \<Longrightarrow> in_range32 x"
  by (rule in_range32_grid [of x b]) (simp_all add: halves_def)

lemma in_range32_third:
  assumes "halves 33 t"
  shows "in_range32 (t / 3) \<and> (r32 (t / 3) = 0 \<or> pow2 (- 3) \<le> \<bar>r32 (t / 3)\<bar>)
           \<and> \<bar>r32 (t / 3)\<bar> \<le> pow2 33"
proof (cases "t = 0")
  case True
  then show ?thesis using pow2_pos [of 33] by (simp add: in_range32_def)
next
  case False
  from assms have g: "2 * t \<in> \<int>" and u: "\<bar>t\<bar> \<le> pow2 33" by (simp_all add: halves_def)
  from half_grid_ge [OF g False] have "1 / 2 \<le> \<bar>t\<bar>" by (simp add: pow2_def)
  then have lo: "pow2 (- 3) \<le> \<bar>t / 3\<bar>" by (simp add: pow2_def)
  have up: "\<bar>t / 3\<bar> \<le> pow2 33" using u by simp
  have "pow2 (- 126) \<le> \<bar>t / 3\<bar>" "\<bar>t / 3\<bar> \<le> pow2 127"
    using lo up pow2_mono [of "- 126" "- 3"] pow2_mono [of 33 127] by simp_all
  then show ?thesis
    using r32_ge [OF lo] r32_le [OF up] by (simp add: in_range32_def)
qed

lemma in_range32_quotient:
  assumes a: "a = 0 \<or> pow2 (- 3) \<le> \<bar>a\<bar>" and a': "\<bar>a\<bar> \<le> pow2 33"
    and d: "halves 31 d" and d0: "d \<noteq> 0"
  shows "in_range32 (a / d)"
proof (cases "a = 0")
  case True
  then show ?thesis by (simp add: in_range32_def)
next
  case False
  with a have lo: "pow2 (- 3) \<le> \<bar>a\<bar>" by simp
  from d have g: "2 * d \<in> \<int>" and u: "\<bar>d\<bar> \<le> pow2 31" by (simp_all add: halves_def)
  from half_grid_ge [OF g d0] have l: "pow2 (- 1) \<le> \<bar>d\<bar>" .
  have dpos: "0 < \<bar>d\<bar>" using d0 by simp
  have "pow2 (- 34) * \<bar>d\<bar> \<le> pow2 (- 34) * pow2 31"
    using u pow2_pos [of "- 34"] by (simp add: mult_left_mono)
  also have "\<dots> = pow2 (- 3)" using pow2_add [of "- 34" 31] by simp
  finally have "pow2 (- 34) * \<bar>d\<bar> \<le> \<bar>a\<bar>" using lo by linarith
  then have q1: "pow2 (- 34) \<le> \<bar>a / d\<bar>"
    using dpos by (simp add: field_simps)
  have "\<bar>a\<bar> \<le> pow2 34 * pow2 (- 1)" using a' pow2_add [of 34 "- 1"] by simp
  also have "\<dots> \<le> pow2 34 * \<bar>d\<bar>"
    using l pow2_pos [of 34] by (simp add: mult_left_mono)
  finally have q2: "\<bar>a / d\<bar> \<le> pow2 34"
    using dpos by (simp add: field_simps)
  show ?thesis
    using q1 q2 pow2_mono [of "- 126" "- 34"] pow2_mono [of 34 127]
    by (simp add: in_range32_def)
qed

lemma setCalibration_in_range:
  assumes "int32 x_min" and "int32 x_max" and "int32 y_min" and "int32 y_max"
    and "int32 z_min" and "int32 z_max"
  shows
    "let x_min_f = f32_of_int x_min; x_max_f = f32_of_int x_max;
         y_min_f = f32_of_int y_min; y_max_f = f32_of_int y_max;
         z_min_f = f32_of_int z_min; z_max_f = f32_of_int z_max;
         dx = delta x_min x_max; dy = delta y_min y_max; dz = delta z_min z_max;
         avg_delta = mean3 dx dy dz
     in in_range32 (real_of_int x_min) \<and> in_range32 (real_of_int x_max)
      \<and> in_range32 (real_of_int y_min) \<and> in_range32 (real_of_int y_max)
      \<and> in_range32 (real_of_int z_min) \<and> in_range32 (real_of_int z_max)
      \<and> in_range32 (x_min_f + x_max_f) \<and> in_range32 (f32_add x_min_f x_max_f / 2)
      \<and> in_range32 (y_min_f + y_max_f) \<and> in_range32 (f32_add y_min_f y_max_f / 2)
      \<and> in_range32 (z_min_f * z_max_f) \<and> in_range32 (f32_mul z_min_f z_max_f / 2)
      \<and> in_range32 (x_max_f - x_min_f) \<and> in_range32 (f32_sub x_max_f x_min_f / 2)
      \<and> in_range32 (y_max_f - y_min_f) \<and> in_range32 (f32_sub y_max_f y_min_f / 2)
      \<and> in_range32 (z_max_f - z_min_f) \<and> in_range32 (f32_sub z_max_f z_min_f / 2)
      \<and> in_range32 (dx + dy) \<and> in_range32 (f32_add dx dy + dz)
      \<and> in_range32 (f32_add (f32_add dx dy) dz / 3)
      \<and> (dx \<noteq> 0 \<longrightarrow> in_range32 (avg_delta / dx))
      \<and> (dy \<noteq> 0 \<longrightarrow> in_range32 (avg_delta / dy))
      \<and> (dz \<noteq> 0 \<longrightarrow> in_range32 (avg_delta / dz))"
proof -
  note c = assms [THEN whole_of_int32]
  note f = c [THEN whole_r32, folded f32_of_int_def]
  have sx: "whole 32 (f32_of_int x_min + f32_of_int x_max)"
    and sy: "whole 32 (f32_of_int y_min + f32_of_int y_max)"
    using whole_add [OF f(1) f(2)] whole_add [OF f(3) f(4)] by simp_all
  have pz: "whole 62 (f32_of_int z_min * f32_of_int z_max)"
    using whole_mult [OF f(5) f(6)] by simp
  have ex: "whole 32 (f32_of_int x_max - f32_of_int x_min)"
    and ey: "whole 32 (f32_of_int y_max - f32_of_int y_min)"
    and ez: "whole 32 (f32_of_int z_max - f32_of_int z_min)"
    using whole_diff [OF f(2) f(1)] whole_diff [OF f(4) f(3)] whole_diff [OF f(6) f(5)]
    by simp_all
  note hsx = halves_half [OF whole_r32 [OF sx], folded f32_add_def, simplified]
  note hsy = halves_half [OF whole_r32 [OF sy], folded f32_add_def, simplified]
  note hpz = halves_half [OF whole_r32 [OF pz], folded f32_mul_def, simplified]
  note hex = halves_half [OF whole_r32 [OF ex], folded f32_sub_def, simplified]
  note hey = halves_half [OF whole_r32 [OF ey], folded f32_sub_def, simplified]
  note hez = halves_half [OF whole_r32 [OF ez], folded f32_sub_def, simplified]
  have dx: "halves 31 (delta x_min x_max)" and dy: "halves 31 (delta y_min y_max)"
    and dz: "halves 31 (delta z_min z_max)"
    using halves_r32 [OF hex] halves_r32 [OF hey] halves_r32 [OF hez]
    by (simp_all add: delta_def f32_div_def)
  have t1: "halves 32 (delta x_min x_max + delta y_min y_max)"
    using halves_add [OF dx dy] by simp
  have t1r: "halves 32 (f32_add (delta x_min x_max) (delta y_min y_max))"
    using halves_r32 [OF t1] by (simp add: f32_add_def)
  have t2: "halves 33 (f32_add (delta x_min x_max) (delta y_min y_max) + delta z_min z_max)"
    using halves_add [OF t1r halves_mono [OF dz, of 32]] by simp
  have t2r: "halves 33 (f32_add (f32_add (delta x_min x_max) (delta y_min y_max))
                 (delta z_min z_max))"
    using halves_r32 [OF t2] by (simp add: f32_add_def)
  let ?avg = "mean3 (delta x_min x_max) (delta y_min y_max) (delta z_min z_max)"
  have third:
    "in_range32 (f32_add (f32_add (delta x_min x_max) (delta y_min y_max))
                   (delta z_min z_max) / 3)"
    "?avg = 0 \<or> pow2 (- 3) \<le> \<bar>?avg\<bar>" "\<bar>?avg\<bar> \<le> pow2 33"
    using in_range32_third [OF t2r] by (simp_all add: mean3_def f32_div_def)
  have q: "d \<noteq> 0 \<Longrightarrow> halves 31 d \<Longrightarrow>
             in_range32 (mean3 (delta x_min x_max) (delta y_min y_max) (delta z_min z_max) / d)"
    for d
    using third(2,3) by (intro in_range32_quotient) simp_all
  show ?thesis
    unfolding Let_def
    using c f sx sy pz ex ey ez hsx hsy hpz hex hey hez dx dy dz t1 t2 third q
    by (simp add: in_range32_whole in_range32_halves)
qed

text \<open>With \<open>min = max\<close> on an axis its delta is 0 and its scale is not finite.\<close>

lemma setCalibration_zero_delta:
  "scale (setCalibration x x y_min y_max z_min z_max s) ! 0 = NonFinite"
  by (simp add: setCalibration_def setCalibrationOffsets_def setCalibrationScales_def
      f32_defs Let_def)

text \<open>The calibration derived from the extrema 0, 1, 0, 2, 0, 2.\<close>

lemma setCalibration_0_1_0_2_0_2:
  "setCalibration 0 1 0 2 0 2 s =
     s\<lparr>offset := [Finite (1 / 2), Finite 1, Finite 0],
       scale := [Finite (13981013 / 8388608), Finite (13981013 / 16777216),
                 Finite (13981013 / 16777216)]\<rparr>"
  by (simp add: setCalibration_def setCalibrationOffsets_def setCalibrationScales_def
      f32_defs r32_eval)

lemma c_round_of_int: "c_round (real_of_int x) = x"
  by (simp add: c_round_def)

text \<open>
  C7. After \<open>clearCalibration\<close>, applying the calibration to any raw sample
  \<open>(x, y, z)\<close> gives the calibrated sample \<open>(x, y, z)\<close>. (The samples that
  \<open>read\<close> stores are 16-bit values, which a \<open>float\<close> holds exactly.)
\<close>

theorem clearCalibration_identity:
  "map_option vCalibrated (applyCalibration (clearCalibration (s\<lparr>vRaw := [x, y, z]\<rparr>)))
     = Some [x, y, z]"
  by (simp add: applyCalibration_def calibrated_axis_def clearCalibration_def
      setCalibrationOffsets_def setCalibrationScales_def c_round_of_int)

section \<open>Well-formed objects and the smoothing step\<close>

text \<open>
  In a well-formed object the cursor after the wrap-around test and the rows visited
  by the scans of the advanced mode lie inside the 10 rows of \<open>_vHistory\<close>, and a
  smoothing step keeps the object well formed.
\<close>

lemma well_formed_static: "well_formed static_compass"
  by (simp add: well_formed_def ctor_defs)

lemma uint_steps_le: "smoothSteps s \<le> 10 \<Longrightarrow> uint (smoothSteps s) \<le> 10"
  by (simp add: word_le_def)

lemma rewind_index:
  "well_formed s \<Longrightarrow> nat (vScan (rewind s)) < length (vHistory s)"
  using uint_steps_le [of s] by (auto simp: well_formed_def rewind_def)

lemma scan_rows_in_range:
  "well_formed s \<Longrightarrow> nat (uint (smoothSteps s) - 1) < length (vHistory s)"
  using uint_steps_le [of s] by (auto simp: well_formed_def)

lemma list_all_update: "list_all P xs \<Longrightarrow> P x \<Longrightarrow> list_all P (xs[k := x])"
  by (induction xs arbitrary: k) (auto split: nat.splits)

lemma well_formed_smoothing_axis:
  assumes "well_formed s" and "smoothing_axis i s = Some s'"
  shows "well_formed s' \<and> vScan s' = vScan s \<and> smoothSteps s' = smoothSteps s"
proof -
  have "list_all (\<lambda>row. length row = 3)
          ((vHistory s)[nat (vScan s) := (vHistory s ! nat (vScan s))[i := vCalibrated s ! i]])"
  proof (cases "nat (vScan s) < length (vHistory s)")
    case True
    with assms(1) have "length (vHistory s ! nat (vScan s)) = 3"
      by (simp add: well_formed_def list_all_length)
    with assms(1) show ?thesis
      by (intro list_all_update) (simp_all add: well_formed_def)
  next
    case False
    with assms(1) show ?thesis
      by (simp add: well_formed_def list_update_beyond)
  qed
  with assms show ?thesis
    by (auto simp: well_formed_def smoothing_axis_def Let_def
        split: if_splits Option.bind_splits)
qed

lemma well_formed_smoothing:
  assumes "well_formed s" and "smoothing s = Some s'"
  shows "well_formed s'"
proof -
  have r: "well_formed (rewind s)"
    using assms(1) by (simp add: well_formed_def rewind_def)
  from assms(2) obtain s1 s2 s3 where
    a: "smoothing_axis 0 (rewind s) = Some s1" "smoothing_axis 1 s1 = Some s2"
       "smoothing_axis 2 s2 = Some s3" "s' = s3\<lparr>vScan := vScan s3 + 1\<rparr>"
    by (auto simp: smoothing_def rewind_def Let_def split: Option.bind_splits)
  from well_formed_smoothing_axis [OF r a(1)] have w1: "well_formed s1" by simp
  from well_formed_smoothing_axis [OF w1 a(2)] have w2: "well_formed s2" by simp
  from well_formed_smoothing_axis [OF w2 a(3)] have w3: "well_formed s3" by simp
  then show ?thesis by (simp add: a(4) well_formed_def)
qed

section \<open>Smoothing engine: the running totals\<close>

text \<open>
  A smoothing step keeps \<open>totals[i]\<close> equal to the sum of the ring-buffer entries
  of axis \<open>i\<close> provided it does subtract the entry it evicts: the total is not 0, or
  the evicted entry is 0.
\<close>

lemma sum_list_update_int:
  fixes xs :: "int list"
  shows "k < length xs \<Longrightarrow> sum_list (xs[k := x]) = sum_list xs + x - xs ! k"
  by (induction xs arbitrary: k) (auto split: nat.splits)

lemma column_sum_update:
  fixes f :: "'a \<Rightarrow> int"
  assumes "k < n" "n \<le> length h"
  shows "sum_list (map f (take n (h[k := r]))) = sum_list (map f (take n h)) + f r - f (h ! k)"
proof -
  let ?c = "map f (take n h)"
  have "map f (take n (h[k := r])) = ?c[k := f r]"
    by (simp add: take_update_swap map_update)
  moreover have "k < length ?c" using assms by simp
  then have "sum_list (?c[k := f r]) = sum_list ?c + f r - ?c ! k"
    by (rule sum_list_update_int)
  moreover have "?c ! k = f (h ! k)" using assms by simp
  ultimately show ?thesis by simp
qed

lemma column_update_other:
  assumes "j \<noteq> i"
  shows "map (\<lambda>row. row ! j) (h[k := (h ! k)[i := c]]) = map (\<lambda>row. row ! j) h"
proof (cases "k < length h")
  case True
  have "map (\<lambda>row. row ! j) (h[k := (h ! k)[i := c]])
          = (map (\<lambda>row. row ! j) h)[k := (map (\<lambda>row. row ! j) h) ! k]"
    using assms True by (simp add: map_update)
  then show ?thesis by (simp only: list_update_id)
next
  case False
  then show ?thesis by (simp add: list_update_beyond)
qed

lemma smoothing_axis_fields:
  assumes "smoothing_axis i s = Some s'"
  shows "vHistory s' = (vHistory s)[nat (vScan s) := (vHistory s ! nat (vScan s))[i := vCalibrated s ! i]]"
    and "vTotals s' = (vTotals s)[i := (if vTotals s ! i \<noteq> 0 then vTotals s ! i - vHistory s ! nat (vScan s) ! i else vTotals s ! i) + vHistory s' ! nat (vScan s) ! i]"
    and "smoothSteps s' = smoothSteps s" and "vScan s' = vScan s" and "vCalibrated s' = vCalibrated s"
  using assms
  by (auto simp: smoothing_axis_def Let_def split: if_splits Option.bind_splits)

lemma smoothing_axis_totals:
  assumes wf: "well_formed s" and i: "i < 3"
    and scan: "nat (vScan s) < unat (smoothSteps s)"
    and ok: "totals_ok s i"
    and guard: "vTotals s ! i \<noteq> 0 \<or> vHistory s ! nat (vScan s) ! i = 0"
    and step: "smoothing_axis i s = Some s'"
  shows "totals_ok s' i"
proof -
  let ?k = "nat (vScan s)" and ?n = "unat (smoothSteps s)" and ?h = "vHistory s"
  let ?r = "(?h ! ?k)[i := vCalibrated s ! i]"
  have n: "?n \<le> length ?h"
    using wf by (simp add: well_formed_def word_le_nat_alt)
  then have k: "?k < length ?h" using scan by simp
  with wf have "length (?h ! ?k) = 3"
    by (simp add: well_formed_def list_all_length)
  with i have r: "?r ! i = vCalibrated s ! i" by simp
  have b: "buffer_sum s' i = buffer_sum s i + vCalibrated s ! i - ?h ! ?k ! i"
    unfolding buffer_sum_def smoothing_axis_fields [OF step]
    using column_sum_update [OF scan n, of "\<lambda>row. row ! i" ?r] r by simp
  have "vHistory s' ! ?k ! i = vCalibrated s ! i"
    using k r by (simp add: smoothing_axis_fields(1) [OF step])
  moreover have "i < length (vTotals s)" using wf i by (simp add: well_formed_def)
  ultimately have t: "vTotals s' ! i =
      (if vTotals s ! i \<noteq> 0 then vTotals s ! i - ?h ! ?k ! i else vTotals s ! i)
        + vCalibrated s ! i"
    by (simp add: smoothing_axis_fields(2) [OF step])
  from ok guard show ?thesis
    unfolding totals_ok_def b t by auto
qed

lemma smoothing_axis_other:
  assumes wf: "well_formed s" and j: "j \<noteq> i"
    and ok: "totals_ok s j"
    and step: "smoothing_axis i s = Some s'"
  shows "totals_ok s' j \<and> vTotals s' ! j = vTotals s ! j
           \<and> vHistory s' ! nat (vScan s) ! j = vHistory s ! nat (vScan s) ! j"
proof -
  let ?k = "nat (vScan s)" and ?h = "vHistory s"
  let ?r = "(?h ! ?k)[i := vCalibrated s ! i]"
  have col: "map (\<lambda>row. row ! j) (?h[?k := ?r]) = map (\<lambda>row. row ! j) ?h"
    using j by (rule column_update_other)
  have "buffer_sum s' j = buffer_sum s j"
    unfolding buffer_sum_def smoothing_axis_fields [OF step]
    by (simp add: take_map [symmetric] col)
  moreover have "vTotals s' ! j = vTotals s ! j"
    using j by (simp add: smoothing_axis_fields(2) [OF step])
  moreover have "vHistory s' ! ?k ! j = ?h ! ?k ! j"
  proof (cases "?k < length ?h")
    case True
    with j show ?thesis by (simp add: smoothing_axis_fields(1) [OF step])
  next
    case False
    then show ?thesis by (simp add: smoothing_axis_fields(1) [OF step] list_update_beyond)
  qed
  ultimately show ?thesis using ok by (simp add: totals_ok_def)
qed

lemma rewind_cursor:
  assumes "well_formed s" and "1 \<le> smoothSteps s"
  shows "nat (vScan (rewind s)) < unat (smoothSteps (rewind s))"
proof -
  have p: "0 < unat (smoothSteps s)"
    using assms(2) by (simp add: word_le_nat_alt)
  have u: "uint (smoothSteps s) = int (unat (smoothSteps s))"
    by (rule uint_nat)
  have z: "0 \<le> vScan s" using assms(1) by (simp add: well_formed_def)
  show ?thesis
  proof (cases "vScan s > uint (smoothSteps s) - 1")
    case True
    with p show ?thesis by (simp add: rewind_def)
  next
    case False
    then have "rewind s = s" by (simp add: rewind_def)
    moreover from False z u have "nat (vScan s) < unat (smoothSteps s)" by linarith
    ultimately show ?thesis by simp
  qed
qed

lemma smoothing_totals:
  assumes wf: "well_formed s" and cap: "1 \<le> smoothSteps s"
    and ok: "totals_ok s 0" "totals_ok s 1" "totals_ok s 2"
    and guard:
      "vTotals s ! 0 \<noteq> 0 \<or> vHistory s ! nat (vScan (rewind s)) ! 0 = 0"
      "vTotals s ! 1 \<noteq> 0 \<or> vHistory s ! nat (vScan (rewind s)) ! 1 = 0"
      "vTotals s ! 2 \<noteq> 0 \<or> vHistory s ! nat (vScan (rewind s)) ! 2 = 0"
    and step: "smoothing s = Some s'"
  shows "totals_ok s' 0 \<and> totals_ok s' 1 \<and> totals_ok s' 2"
proof -
  let ?r = "rewind s"
  let ?k = "nat (vScan ?r)"
  from step obtain s1 s2 s3 where
    a: "smoothing_axis 0 ?r = Some s1" "smoothing_axis 1 s1 = Some s2"
       "smoothing_axis 2 s2 = Some s3" and s': "s' = s3\<lparr>vScan := vScan s3 + 1\<rparr>"
    by (auto simp: smoothing_def rewind_def Let_def split: Option.bind_splits)
  have r: "well_formed ?r" "vTotals ?r = vTotals s" "vHistory ?r = vHistory s"
    using wf by (simp_all add: well_formed_def rewind_def)
  have okr: "totals_ok ?r 0" "totals_ok ?r 1" "totals_ok ?r 2"
    using ok by (simp_all add: totals_ok_def buffer_sum_def rewind_def)
  have c: "?k < unat (smoothSteps ?r)"
    using wf cap by (rule rewind_cursor)
  have w1: "well_formed s1" "vScan s1 = vScan ?r" "smoothSteps s1 = smoothSteps ?r"
    using well_formed_smoothing_axis [OF r(1) a(1)] by simp_all
  have w2: "well_formed s2" "vScan s2 = vScan ?r" "smoothSteps s2 = smoothSteps ?r"
    using well_formed_smoothing_axis [OF w1(1) a(2)] w1 by simp_all
  \<comment> \<open>axis 0\<close>
  have g0: "vTotals ?r ! 0 \<noteq> 0 \<or> vHistory ?r ! ?k ! 0 = 0"
    using guard(1) by (simp add: r)
  have t0: "totals_ok s1 0"
    by (rule smoothing_axis_totals [OF r(1) _ c okr(1) g0 a(1)]) simp
  have o1: "totals_ok s1 1 \<and> vTotals s1 ! 1 = vTotals ?r ! 1
              \<and> vHistory s1 ! ?k ! 1 = vHistory ?r ! ?k ! 1"
    by (rule smoothing_axis_other [OF r(1) _ okr(2) a(1)]) simp
  have o2: "totals_ok s1 2 \<and> vTotals s1 ! 2 = vTotals ?r ! 2
              \<and> vHistory s1 ! ?k ! 2 = vHistory ?r ! ?k ! 2"
    by (rule smoothing_axis_other [OF r(1) _ okr(3) a(1)]) simp
  \<comment> \<open>axis 1\<close>
  have c1: "nat (vScan s1) < unat (smoothSteps s1)" using c w1 by simp
  have g1: "vTotals s1 ! 1 \<noteq> 0 \<or> vHistory s1 ! nat (vScan s1) ! 1 = 0"
    using guard(2) o1 w1 by (simp add: r)
  have t1: "totals_ok s2 1"
    by (rule smoothing_axis_totals [OF w1(1) _ c1 conjunct1 [OF o1] g1 a(2)]) simp
  have p0: "totals_ok s2 0 \<and> vTotals s2 ! 0 = vTotals s1 ! 0
              \<and> vHistory s2 ! nat (vScan s1) ! 0 = vHistory s1 ! nat (vScan s1) ! 0"
    by (rule smoothing_axis_other [OF w1(1) _ t0 a(2)]) simp
  have p2: "totals_ok s2 2 \<and> vTotals s2 ! 2 = vTotals s1 ! 2
              \<and> vHistory s2 ! nat (vScan s1) ! 2 = vHistory s1 ! nat (vScan s1) ! 2"
    by (rule smoothing_axis_other [OF w1(1) _ conjunct1 [OF o2] a(2)]) simp
  \<comment> \<open>axis 2\<close>
  have c2: "nat (vScan s2) < unat (smoothSteps s2)" using c w2 by simp
  have g2: "vTotals s2 ! 2 \<noteq> 0 \<or> vHistory s2 ! nat (vScan s2) ! 2 = 0"
    using guard(3) o2 p2 w1 w2 by (simp add: r)
  have t2: "totals_ok s3 2"
    by (rule smoothing_axis_totals [OF w2(1) _ c2 conjunct1 [OF p2] g2 a(3)]) simp
  have q0: "totals_ok s3 0 \<and> vTotals s3 ! 0 = vTotals s2 ! 0
              \<and> vHistory s3 ! nat (vScan s2) ! 0 = vHistory s2 ! nat (vScan s2) ! 0"
    by (rule smoothing_axis_other [OF w2(1) _ conjunct1 [OF p0] a(3)]) simp
  have q1: "totals_ok s3 1 \<and> vTotals s3 ! 1 = vTotals s2 ! 1
              \<and> vHistory s3 ! nat (vScan s2) ! 1 = vHistory s2 ! nat (vScan s2) ! 1"
    by (rule smoothing_axis_other [OF w2(1) _ t1 a(3)]) simp
  show ?thesis
    using q0 q1 t2 by (simp add: s' totals_ok_def buffer_sum_def)
qed

section \<open>Smoothing engine: two runs\<close>

text \<open>
  C3. The claim: after every smoothing step, \<open>totals[i]\<close> is the sum of the
  ring-buffer entries held for axis \<open>i\<close>. The step subtracts the evicted entry only
  when the total is not 0. With capacity 2 and the samples 5, -5, 7 on axis 0 the
  total is 0 after the second step, the third step overwrites the entry 5 without
  subtracting it, and the total is 7 while the buffer holds 7 and -5.
\<close>

theorem smoothing_totals_skip_eviction:
  "map_option (\<lambda>s. (vTotals s ! 0, buffer_sum s 0, vHistory s ! 0 ! 0, vHistory s ! 1 ! 0))
     (feed [[5, 0, 0], [- 5, 0, 0], [7, 0, 0]] (setSmoothing 2 False static_compass))
   = Some (7, 2, 7, - 5)"
  by (simp add: ctor_defs setSmoothing_def smooth_defs buffer_sum_def Let_def)

text \<open>
  C4. The claim: advanced smoothing with 5 steps on the samples 10, 20, 30, 40, 50
  gives 30 after the fifth step. The scans for the maximum and the minimum stop one
  row short of the buffer, so the 50 in the last row is not found: the code removes
  40 and 10 from the total 150 and gives \<open>round(100 / 3) = 33\<close>.
\<close>

theorem advanced_smoothing_gives_33:
  "map_option (\<lambda>s. (map (\<lambda>row. row ! 0) (take 5 (vHistory s)), vTotals s ! 0, vSmooth s ! 0))
     (feed [[10, 0, 0], [20, 0, 0], [30, 0, 0], [40, 0, 0], [50, 0, 0]]
        (setSmoothing 5 True static_compass))
   = Some ([10, 20, 30, 40, 50], 150, 33)"
  by (simp add: ctor_defs setSmoothing_def smooth_defs Let_def upt_rec)

section \<open>Reading a sample\<close>

text \<open>
  C6. When the transmission ends with a nonzero error code, \<open>read\<close> returns false
  and the driver object is the one it was called on: every field keeps its value.
\<close>

theorem read_error_keeps_state:
  "err \<noteq> 0 \<Longrightarrow> read err rx s = Some (False, s)"
  by (simp add: read_def)

theorem read_error_keeps_state_witness:
  "(4 :: int) \<noteq> 0 \<and> read 4 [1, 0, 2, 0, 3, 0] static_compass = Some (False, static_compass)"
  using read_error_keeps_state [of 4 "[1, 0, 2, 0, 3, 0]" static_compass]
  by simp

section \<open>Auto-calibration session\<close>

text \<open>
  C2. The claim: \<open>calibrate\<close> called with 0 seconds has a budget of 10000
  milliseconds. The code replaces 0 by 10000 before it multiplies by 1000: the
  budget is 10000000 milliseconds. A session of 10 seconds ends with the iteration
  at 10000 milliseconds; the session of 0 seconds is still polling after it.
\<close>

theorem calibrate_zero_seconds_budget:
  "calibrate_totalMillis (0 :: uint) = 10000000
     \<and> calibrate 0 0 [(10000, 0, [1, 0, 2, 0, 3, 0])] static_compass = Polling
     \<and> calibrate 10 0 [(10000, 0, [1, 0, 2, 0, 3, 0])] static_compass \<noteq> Polling"
  by (simp add: calibrate_def calibrate_totalMillis_def clamp_progress_def ctor_defs
      calib_defs read_defs get_defs Let_def)

text \<open>Where \<open>unsigned int\<close> has 16 bits the product wraps, and the budget is 38528.\<close>

lemma calibrate_totalMillis_16bit: "calibrate_totalMillis (0 :: 16 word) = 38528"
  by (simp add: calibrate_totalMillis_def)

section \<open>Frame of the extrema tracking\<close>

lemma track_extrema_frame:
  "track_extrema x y z s = (f, s') \<Longrightarrow>
     s' = s\<lparr>minX := minX s', maxX := maxX s', minY := minY s', maxY := maxY s',
            minZ := minZ s', maxZ := maxZ s'\<rparr>"
  by (auto simp: track_extrema_def Let_def split: if_splits prod.splits)

section \<open>The smoothing flag\<close>

lemma smoothUse_setCalibration [simp]:
  "smoothUse (setCalibration a b c d e f s) = smoothUse s"
  by (simp add: setCalibration_def setCalibrationOffsets_def setCalibrationScales_def Let_def)

lemma smoothUse_clearCalibration [simp]:
  "smoothUse (clearCalibration s) = smoothUse s"
  by (simp add: clearCalibration_def setCalibrationOffsets_def setCalibrationScales_def)

lemma smoothUse_track_extrema:
  assumes "track_extrema x y z s = (f, s')"
  shows "smoothUse s' = smoothUse s"
  by (subst track_extrema_frame [OF assms]) simp

lemma smoothUse_applyCalibrationIfNecessary:
  "applyCalibrationIfNecessary x y z s = (f, s') \<Longrightarrow> smoothUse s' = smoothUse s"
  by (auto simp: applyCalibrationIfNecessary_def Let_def smoothUse_track_extrema
      split: if_splits prod.splits)

lemma smoothUse_applyCalibration:
  "applyCalibration s = Some s' \<Longrightarrow> smoothUse s' = smoothUse s"
  by (auto simp: applyCalibration_def split: Option.bind_splits)

lemma smoothUse_smoothing_axis:
  "smoothing_axis i s = Some s' \<Longrightarrow> smoothUse s' = smoothUse s"
  by (auto simp: smoothing_axis_def Let_def split: if_splits Option.bind_splits)

lemma smoothUse_smoothing:
  "smoothing s = Some s' \<Longrightarrow> smoothUse s' = smoothUse s"
  by (auto simp: smoothing_def Let_def split: if_splits Option.bind_splits
      dest!: smoothUse_smoothing_axis)

lemma smoothUse_read:
  "read err rx s = Some (f, s') \<Longrightarrow> smoothUse s' = smoothUse s"
  by (auto simp: read_def Let_def split: if_splits Option.bind_splits prod.splits
      dest!: smoothUse_smoothing smoothUse_applyCalibration
        smoothUse_applyCalibrationIfNecessary)

text \<open>The loop of the session, by induction on the iterations it performs.\<close>

lemma smoothUse_calibrate_loop:
  "calibrate_loop totalMillis startTime env s cb = Finished s' cb'
     \<Longrightarrow> smoothUse s' = smoothUse s"
proof (induction env arbitrary: s cb)
  case Nil
  then show ?case by simp
next
  case (Cons e env)
  obtain currentTime err rx where e: "e = (currentTime, err, rx)"
    by (cases e)
  from Cons.prems obtain f s1 where r: "read err rx s = Some (f, s1)"
    by (auto simp: e Let_def split: option.splits)
  obtain g s2 where t: "track_extrema (getX s1) (getY s1) (getZ s1) s1 = (g, s2)"
    by (cases "track_extrema (getX s1) (getY s1) (getZ s1) s1")
  have u: "smoothUse s2 = smoothUse s"
    using smoothUse_read [OF r] smoothUse_track_extrema [OF t] by simp
  from Cons.prems show ?case
    using Cons.IH [of s2] u
    by (auto simp: e r t Let_def split: if_splits)
qed

lemma smoothUse_calibrate:
  "calibrate seconds startTime env s = Finished s' cb \<Longrightarrow> smoothUse s' = smoothUse s"
  by (auto simp: calibrate_def Let_def dest!: smoothUse_calibrate_loop)

lemma smoothUse_exec:
  assumes "exec c s = Some s'" and "smoothUse s"
  shows "smoothUse s'"
proof (cases c)
  case (Calibrate seconds startTime env)
  with assms show ?thesis
    by (auto split: session.splits dest: smoothUse_calibrate)
next
  case (Read err rx)
  with assms show ?thesis
    by (auto split: option.splits dest: smoothUse_read)
qed (use assms in \<open>auto simp: setADDR_def setAutocalibrate_def setMagneticDeclination_def
      setSmoothing_def setCalibrationOffsets_def setCalibrationScales_def
      split: option.splits\<close>)

lemma smoothUse_run:
  "run cs s = Some s' \<Longrightarrow> smoothUse s \<Longrightarrow> smoothUse s'"
  by (induction cs arbitrary: s) (auto split: option.splits dest: smoothUse_exec)

text \<open>
  C10. After \<open>setSmoothing\<close>, whatever sequence of public calls follows, the
  smoothing flag is still set, and \<open>getX\<close>, \<open>getY\<close>, \<open>getZ\<close> return the smoothed
  values.
\<close>

theorem smoothing_stays_enabled:
  assumes "run cs (setSmoothing steps adv s) = Some s'"
  shows "smoothUse s' \<and> getX s' = vSmooth s' ! 0 \<and> getY s' = vSmooth s' ! 1
           \<and> getZ s' = vSmooth s' ! 2"
proof -
  have "smoothUse (setSmoothing steps adv s)"
    by (simp add: setSmoothing_def)
  with assms have "smoothUse s'"
    by (rule smoothUse_run)
  then show ?thesis
    by (simp add: getX_def getY_def getZ_def get_def)
qed

theorem smoothing_stays_enabled_witness:
  "\<exists>s'. run [ClearCalibration, Read 0 [1, 0, 2, 0, 3, 0], SetSmoothing 3 False,
              Calibrate 1 0 [(500, 0, [1, 0, 5, 0, 3, 0]), (1000, 1, [])],
              Read 0 [4, 0, 1, 0, 2, 0], GetX]
            (setSmoothing 4 True static_compass) = Some s'
        \<and> smoothUse s' \<and> getX s' = vSmooth s' ! 0 \<and> getY s' = vSmooth s' ! 1
        \<and> getZ s' = vSmooth s' ! 2"
proof -
  let ?cs = "[ClearCalibration, Read 0 [1, 0, 2, 0, 3, 0], SetSmoothing 3 False,
              Calibrate 1 0 [(500, 0, [1, 0, 5, 0, 3, 0]), (1000, 1, [])],
              Read 0 [4, 0, 1, 0, 2, 0], GetX]"
  have "run ?cs (setSmoothing 4 True static_compass) \<noteq> None"
    by (simp add: calibrate_def calibrate_totalMillis_def clamp_progress_def ctor_defs
        setCalibration_0_1_0_2_0_2 setCalibrationOffsets_def setCalibrationScales_def
        clearCalibration_def track_extrema_def applyCalibration_def calibrated_axis_def
        read_defs get_defs smooth_defs setSmoothing_def Let_def upt_rec)
  then obtain s' where r: "run ?cs (setSmoothing 4 True static_compass) = Some s'"
    by blast
  from smoothing_stays_enabled [OF r] r show ?thesis
    by blast
qed

section \<open>Every public call keeps the object well formed\<close>

lemma well_formed_setCalibration:
  "well_formed s \<Longrightarrow> well_formed (setCalibration a b c d e f s)"
  by (simp add: setCalibration_def setCalibrationOffsets_def setCalibrationScales_def Let_def
      well_formed_def)

lemma well_formed_clearCalibration:
  "well_formed s \<Longrightarrow> well_formed (clearCalibration s)"
  by (simp add: clearCalibration_def setCalibrationOffsets_def setCalibrationScales_def
      well_formed_def)

lemma well_formed_track_extrema:
  assumes "track_extrema x y z s = (f, s')"
  shows "well_formed s' = well_formed s"
  by (subst track_extrema_frame [OF assms]) (simp add: well_formed_def)

lemma well_formed_applyCalibrationIfNecessary:
  "applyCalibrationIfNecessary x y z s = (f, s') \<Longrightarrow> well_formed s \<Longrightarrow> well_formed s'"
  by (auto simp: applyCalibrationIfNecessary_def Let_def well_formed_track_extrema
      well_formed_setCalibration split: if_splits prod.splits)

lemma well_formed_applyCalibration:
  "applyCalibration s = Some s' \<Longrightarrow> well_formed s \<Longrightarrow> well_formed s'"
  by (auto simp: applyCalibration_def well_formed_def split: Option.bind_splits)

lemma well_formed_read:
  assumes "read err rx s = Some (f, s')" and "well_formed s"
  shows "well_formed s'"
proof (cases "err = 0")
  case False
  with assms show ?thesis by (simp add: read_def)
next
  case True
  obtain x rx1 where x: "read_axis rx = (x, rx1)" by (cases "read_axis rx")
  obtain y rx2 where y: "read_axis rx1 = (y, rx2)" by (cases "read_axis rx1")
  obtain z rx3 where z: "read_axis rx2 = (z, rx3)" by (cases "read_axis rx2")
  obtain g s1 where c: "(if autoCalibrate s then applyCalibrationIfNecessary x y z s
                         else (False, s)) = (g, s1)"
    by (cases "if autoCalibrate s then applyCalibrationIfNecessary x y z s else (False, s)")
  have w1: "well_formed s1"
    using c assms(2) by (auto split: if_splits dest: well_formed_applyCalibrationIfNecessary)
  then have w2: "well_formed (s1\<lparr>vRaw := [x, y, z]\<rparr>)"
    by (simp add: well_formed_def)
  from assms(1) True obtain s3 where
    a: "applyCalibration (s1\<lparr>vRaw := [x, y, z]\<rparr>) = Some s3"
    and b: "(if smoothUse s3 then smoothing s3 else Some s3) = Some s'"
    by (auto simp: read_def Let_def x y z c split: Option.bind_splits)
  from well_formed_applyCalibration [OF a w2] have "well_formed s3" .
  with b show ?thesis
    by (auto split: if_splits dest: well_formed_smoothing)
qed

lemma well_formed_calibrate_loop:
  "calibrate_loop totalMillis startTime env s cb = Finished s' cb'
     \<Longrightarrow> well_formed s \<Longrightarrow> well_formed s'"
proof (induction env arbitrary: s cb)
  case Nil
  then show ?case by simp
next
  case (Cons e env)
  obtain currentTime err rx where e: "e = (currentTime, err, rx)"
    by (cases e)
  from Cons.prems obtain f s1 where r: "read err rx s = Some (f, s1)"
    by (auto simp: e Let_def split: option.splits)
  obtain g s2 where t: "track_extrema (getX s1) (getY s1) (getZ s1) s1 = (g, s2)"
    by (cases "track_extrema (getX s1) (getY s1) (getZ s1) s1")
  have u: "well_formed s2"
    using well_formed_read [OF r Cons.prems(2)] well_formed_track_extrema [OF t] by simp
  from Cons.prems(1) show ?case
    using Cons.IH [of s2] u
    by (auto simp: e r t Let_def well_formed_setCalibration split: if_splits)
qed

lemma well_formed_calibrate:
  assumes "calibrate seconds startTime env s = Finished s' cb" and "well_formed s"
  shows "well_formed s'"
proof -
  let ?s0 = "clearCalibration s"
  let ?s1 = "?s0\<lparr>minX := getX ?s0, maxX := getX ?s0\<rparr>"
  let ?s2 = "?s1\<lparr>minY := getY ?s1, maxY := getY ?s1\<rparr>"
  let ?s3 = "?s2\<lparr>minZ := getZ ?s2, maxZ := getZ ?s2\<rparr>"
  have "well_formed ?s3"
    using well_formed_clearCalibration [OF assms(2)] by (simp add: well_formed_def)
  moreover from assms(1) have
    "calibrate_loop (calibrate_totalMillis seconds) startTime env ?s3 [(Finite 0, True)]
       = Finished s' cb"
    by (simp add: calibrate_def Let_def)
  ultimately show ?thesis
    by (rule well_formed_calibrate_loop [rotated])
qed

lemma setSmoothing_capacity: "(if steps > 10 then 10 else steps) \<le> (10 :: byte)"
  by (simp add: not_less)

lemma well_formed_exec:
  assumes "exec c s = Some s'" and "well_formed s"
  shows "well_formed s'"
proof (cases c)
  case (Calibrate seconds startTime env)
  with assms show ?thesis
    by (auto split: session.splits dest: well_formed_calibrate)
next
  case (Read err rx)
  with assms show ?thesis
    by (auto split: option.splits dest: well_formed_read)
next
  case (SetSmoothing steps adv)
  with assms show ?thesis
    using setSmoothing_capacity [of steps] by (auto simp: setSmoothing_def well_formed_def)
next
  case (SetCalibration x_min x_max y_min y_max z_min z_max)
  with assms show ?thesis
    by (auto simp: well_formed_setCalibration)
next
  case ClearCalibration
  with assms show ?thesis
    by (auto simp: well_formed_clearCalibration)
qed (use assms in \<open>auto simp: setADDR_def setAutocalibrate_def setMagneticDeclination_def
      setCalibrationOffsets_def setCalibrationScales_def well_formed_def
      split: option.splits\<close>)

lemma well_formed_run:
  "run cs s = Some s' \<Longrightarrow> well_formed s \<Longrightarrow> well_formed s'"
  by (induction cs arbitrary: s) (auto split: option.splits dest: well_formed_exec)

end
